theory Spec2Isabelle
  imports Main "HOL-Library.Word"
begin

section \<open>Conventions of the embedding\<close>

text \<open>
  The contracts of \<^verbatim>\<open>contracts/ReputationSystem.sol\<close> and
  \<^verbatim>\<open>contracts/EvidenceValidator.sol\<close> are embedded as state-passing functions.
  \<^item> An \<^verbatim>\<open>address\<close> is a 160-bit word.
  \<^item> A \<^verbatim>\<open>uint256\<close> is a \<open>nat\<close>. Solidity 0.8 checks its arithmetic: an
    underflow or an overflow reverts the call. Every subtraction of the source that can
    underflow is guarded in the model; an overflow check is written out (\<open>Panic\<close>)
    wherever an operand is chosen by a caller. Ether amounts, token amounts held by a contract, counters and
    timestamps stay far below \<open>2 ^ 256\<close>, so their additions are plain.
  \<^item> A \<^verbatim>\<open>mapping\<close> is a total function whose default is the zero value, as in
    storage.
  \<^item> A call returns \<open>Inr\<close> of the new state, or \<open>Inl\<close> of an error when it reverts;
    a revert leaves the state as it was, so no state is returned.
  \<^item> \<^verbatim>\<open>block.timestamp\<close>, \<^verbatim>\<open>msg.sender\<close> and \<^verbatim>\<open>msg.value\<close> are
    arguments. Events are not part of the state. Recipients of ether are taken to accept it.
\<close>

type_synonym address = "160 word"

datatype error = Revert string | Panic | OutOfFunds

section \<open>StakeBasedReportRegistry\<close>

definition REPORT_STAKE :: nat where "REPORT_STAKE = 10 ^ 16"
definition VOTING_STAKE :: nat where "VOTING_STAKE = 5 * 10 ^ 15"
definition VALIDATOR_REWARD :: nat where "VALIDATOR_REWARD = 10 ^ 15"
definition REPORTER_REWARD :: nat where "REPORTER_REWARD = 5 * 10 ^ 15"
definition MIN_VALIDATORS :: nat where "MIN_VALIDATORS = 3"
definition MAX_VALIDATORS :: nat where "MAX_VALIDATORS = 5"
definition VOTING_PERIOD :: nat where "VOTING_PERIOD = 7 * 86400"

datatype ReportStatus = Pending | Validated | Rejected | Expired

text \<open>The source's \<^verbatim>\<open>VoteType.None\<close> is \<open>NoVote\<close> here.\<close>

datatype VoteType = NoVote | Valid | Invalid

text \<open>The struct \<^verbatim>\<open>Report\<close>; its field \<^verbatim>\<open>id\<close> is \<open>rid\<close>.\<close>

record Report =
  rid :: nat
  reportType :: string
  targetValue :: string
  description :: string
  reportHash :: string
  reporter :: address
  stakeAmount :: nat
  timestamp :: nat
  votingDeadline :: nat
  status :: ReportStatus
  validVotes :: nat
  invalidVotes :: nat
  votes :: "address \<Rightarrow> VoteType"
  validatorStakes :: "address \<Rightarrow> nat"
  validators :: "address list"

text \<open>The struct \<^verbatim>\<open>Validator\<close>; its field \<^verbatim>\<open>id\<close> is \<open>vid\<close>.\<close>

record Validator =
  vid :: nat
  validatorAddress :: address
  reputation :: nat
  totalValidations :: nat
  correctValidations :: nat
  isActive :: bool
  registrationTime :: nat

text \<open>
  The contract's storage, with the ether it holds (\<open>balance\<close>, the source's
  \<^verbatim>\<open>address(this).balance\<close>) and the ether of every other account (\<open>accounts\<close>).
  The contract's mapping \<^verbatim>\<open>validators\<close> is \<open>validators_map\<close>.
\<close>

record registry =
  reportIds :: nat
  validatorIds :: nat
  reports :: "nat \<Rightarrow> Report"
  validators_map :: "address \<Rightarrow> Validator"
  userReports :: "address \<Rightarrow> nat list"
  validatorReports :: "address \<Rightarrow> nat list"
  owner :: address
  balance :: nat
  accounts :: "address \<Rightarrow> nat"

definition emptyReport :: Report where
  "emptyReport = \<lparr>rid = 0, reportType = [], targetValue = [], description = [],
     reportHash = [], reporter = 0, stakeAmount = 0, timestamp = 0, votingDeadline = 0,
     status = Pending, validVotes = 0, invalidVotes = 0, votes = (\<lambda>_. NoVote),
     validatorStakes = (\<lambda>_. 0), validators = []\<rparr>"

definition emptyValidator :: Validator where
  "emptyValidator = \<lparr>vid = 0, validatorAddress = 0, reputation = 0, totalValidations = 0,
     correctValidations = 0, isActive = False, registrationTime = 0\<rparr>"

text \<open>
  The state after the constructor ran for \<open>deployer\<close>: empty storage. \<open>funds\<close> is the
  ether the contract's address holds, \<open>acct\<close> the ether of the other accounts.
\<close>

definition deploy :: "address \<Rightarrow> nat \<Rightarrow> (address \<Rightarrow> nat) \<Rightarrow> registry" where
  "deploy deployer funds acct = \<lparr>reportIds = 0, validatorIds = 0,
     reports = (\<lambda>_. emptyReport), validators_map = (\<lambda>_. emptyValidator),
     userReports = (\<lambda>_. []), validatorReports = (\<lambda>_. []), owner = deployer,
     balance = funds, accounts = acct\<rparr>"

text \<open>The ether \<^verbatim>\<open>msg.value\<close> that a payable call brings in from its sender.\<close>

definition payIn :: "address \<Rightarrow> nat \<Rightarrow> registry \<Rightarrow> error + registry" where
  "payIn sender v s =
     (if accounts s sender < v then Inl OutOfFunds
      else Inr (s\<lparr>accounts := (accounts s)(sender := accounts s sender - v),
                  balance := balance s + v\<rparr>))"

text \<open>\<^verbatim>\<open>payable(recipient).transfer(v)\<close>: reverts when the contract holds less than \<open>v\<close>.\<close>

definition transfer :: "address \<Rightarrow> nat \<Rightarrow> registry \<Rightarrow> error + registry" where
  "transfer recipient v s =
     (if balance s < v then Inl OutOfFunds
      else Inr (s\<lparr>balance := balance s - v,
                  accounts := (accounts s)(recipient := accounts s recipient + v)\<rparr>))"

definition registerValidator :: "address \<Rightarrow> nat \<Rightarrow> registry \<Rightarrow> error + registry" where
  "registerValidator sender now s =
     (if isActive (validators_map s sender) then Inl (Revert ''Already registered as validator'')
      else
        let validatorId = validatorIds s + 1 in
        Inr (s\<lparr>validatorIds := validatorId,
               validators_map := (validators_map s)(sender :=
                 \<lparr>vid = validatorId, validatorAddress = sender, reputation = 100,
                  totalValidations = 0, correctValidations = 0, isActive = True,
                  registrationTime = now\<rparr>)\<rparr>))"

definition submitReportWithStake ::
  "address \<Rightarrow> nat \<Rightarrow> nat \<Rightarrow> string \<Rightarrow> string \<Rightarrow> string \<Rightarrow> string \<Rightarrow> registry
     \<Rightarrow> error + registry" where
  "submitReportWithStake sender msg_value now rType tValue descr rHash s0 =
     (case payIn sender msg_value s0 of Inl e \<Rightarrow> Inl e | Inr s \<Rightarrow>
      if msg_value \<noteq> REPORT_STAKE then Inl (Revert ''Incorrect stake amount'')
      else if \<not> length rType > 0 then Inl (Revert ''Report type required'')
      else if \<not> length tValue > 0 then Inl (Revert ''Target value required'')
      else if \<not> length descr > 0 then Inl (Revert ''Description required'')
      else
        let reportId = reportIds s + 1;
            newReport = (reports s reportId)\<lparr>rid := reportId, reportType := rType,
              targetValue := tValue, description := descr, reportHash := rHash,
              reporter := sender, stakeAmount := msg_value, timestamp := now,
              votingDeadline := now + VOTING_PERIOD, status := Pending,
              validVotes := 0, invalidVotes := 0\<rparr>
        in Inr (s\<lparr>reportIds := reportId,
                  reports := (reports s)(reportId := newReport),
                  userReports := (userReports s)(sender := userReports s sender @ [reportId])\<rparr>))"

text \<open>The loop of \<^verbatim>\<open>_distributeValidatorRewards\<close> over \<^verbatim>\<open>report.validators\<close>.\<close>

fun distributeValidatorRewards_loop :: "nat \<Rightarrow> address list \<Rightarrow> registry \<Rightarrow> error + registry" where
  "distributeValidatorRewards_loop reportId [] s = Inr s"
| "distributeValidatorRewards_loop reportId (validator # rest) s =
     (let report = reports s reportId in
      case (if votes report validator = Valid
            then transfer validator (validatorStakes report validator + VALIDATOR_REWARD) s
            else transfer validator (validatorStakes report validator) s)
      of Inl e \<Rightarrow> Inl e
       | Inr s' \<Rightarrow> distributeValidatorRewards_loop reportId rest s')"

definition distributeValidatorRewards :: "nat \<Rightarrow> registry \<Rightarrow> error + registry" where
  "distributeValidatorRewards reportId s =
     distributeValidatorRewards_loop reportId (validators (reports s reportId)) s"

text \<open>The first loop of \<^verbatim>\<open>_redistributeStake\<close>: the validators who voted \<open>Invalid\<close>.\<close>

fun countCorrectValidators :: "Report \<Rightarrow> address list \<Rightarrow> nat" where
  "countCorrectValidators report [] = 0"
| "countCorrectValidators report (v # rest) =
     (if votes report v = Invalid then 1 else 0) + countCorrectValidators report rest"

text \<open>Its second loop, which pays every validator.\<close>

fun redistributeStake_loop :: "nat \<Rightarrow> nat \<Rightarrow> address list \<Rightarrow> registry \<Rightarrow> error + registry" where
  "redistributeStake_loop reportId stakePerValidator [] s = Inr s"
| "redistributeStake_loop reportId stakePerValidator (validator # rest) s =
     (let report = reports s reportId in
      case (if votes report validator = Invalid
            then transfer validator (validatorStakes report validator + stakePerValidator) s
            else transfer validator (validatorStakes report validator) s)
      of Inl e \<Rightarrow> Inl e
       | Inr s' \<Rightarrow> redistributeStake_loop reportId stakePerValidator rest s')"

definition redistributeStake :: "nat \<Rightarrow> registry \<Rightarrow> error + registry" where
  "redistributeStake reportId s =
     (let report = reports s reportId;
          correctValidators = countCorrectValidators report (validators report)
      in if correctValidators > 0
         then redistributeStake_loop reportId (stakeAmount report div correctValidators)
                (validators report) s
         else Inr s)"

text \<open>The loop of \<^verbatim>\<open>_updateValidatorReputation\<close>.\<close>

fun updateValidatorReputation_loop :: "nat \<Rightarrow> address list \<Rightarrow> registry \<Rightarrow> registry" where
  "updateValidatorReputation_loop reportId [] s = s"
| "updateValidatorReputation_loop reportId (validator # rest) s =
     (let report = reports s reportId;
          val = validators_map s validator;
          val1 = val\<lparr>totalValidations := totalValidations val + 1\<rparr>;
          voteCorrect = ((status report = Validated \<and> votes report validator = Valid) \<or>
                         (status report = Rejected \<and> votes report validator = Invalid));
          val2 = (if voteCorrect
                  then val1\<lparr>correctValidations := correctValidations val1 + 1,
                            reputation := reputation val1 + 1\<rparr>
                  else val1\<lparr>reputation :=
                            (if reputation val1 > 1 then reputation val1 - 1 else 1)\<rparr>)
      in updateValidatorReputation_loop reportId rest
           (s\<lparr>validators_map := (validators_map s)(validator := val2)\<rparr>))"

definition updateValidatorReputation :: "nat \<Rightarrow> registry \<Rightarrow> registry" where
  "updateValidatorReputation reportId s =
     updateValidatorReputation_loop reportId (validators (reports s reportId)) s"

definition setStatus :: "nat \<Rightarrow> ReportStatus \<Rightarrow> registry \<Rightarrow> registry" where
  "setStatus reportId st s =
     s\<lparr>reports := (reports s)(reportId := (reports s reportId)\<lparr>status := st\<rparr>)\<rparr>"

text \<open>\<^verbatim>\<open>_finalizeReport\<close>.\<close>

definition finalizeReport :: "nat \<Rightarrow> registry \<Rightarrow> error + registry" where
  "finalizeReport reportId s =
     (let report = reports s reportId in
      if \<not> length (validators report) \<ge> MIN_VALIDATORS then Inl (Revert ''Not enough validators'')
      else if validVotes report > invalidVotes report then
        (case transfer (reporter report) (stakeAmount report + REPORTER_REWARD)
                (setStatus reportId Validated s) of
           Inl e \<Rightarrow> Inl e
         | Inr s1 \<Rightarrow>
             (case distributeValidatorRewards reportId s1 of
                Inl e \<Rightarrow> Inl e
              | Inr s2 \<Rightarrow> Inr (updateValidatorReputation reportId s2)))
      else
        (case redistributeStake reportId (setStatus reportId Rejected s) of
           Inl e \<Rightarrow> Inl e
         | Inr s1 \<Rightarrow> Inr (updateValidatorReputation reportId s1)))"

text \<open>The loop of \<^verbatim>\<open>voteOnReport\<close> that looks the sender up among the validators.\<close>

fun validatorExists :: "address list \<Rightarrow> address \<Rightarrow> bool" where
  "validatorExists [] a = False"
| "validatorExists (v # rest) a = (if v = a then True else validatorExists rest a)"

text \<open>
  \<^verbatim>\<open>voteOnReport\<close>, with its modifiers in the source's order:
  \<^verbatim>\<open>onlyActiveValidator\<close>, \<^verbatim>\<open>reportExists\<close>, \<^verbatim>\<open>votingOpen\<close>.
\<close>

definition voteOnReport ::
  "address \<Rightarrow> nat \<Rightarrow> nat \<Rightarrow> nat \<Rightarrow> bool \<Rightarrow> registry \<Rightarrow> error + registry" where
  "voteOnReport sender msg_value now reportId isValid s0 =
     (case payIn sender msg_value s0 of Inl e \<Rightarrow> Inl e | Inr s \<Rightarrow>
      if \<not> isActive (validators_map s sender) then Inl (Revert ''Not an active validator'')
      else if \<not> reportId \<le> reportIds s then Inl (Revert ''Report does not exist'')
      else if \<not> now \<le> votingDeadline (reports s reportId) then Inl (Revert ''Voting period closed'')
      else if \<not> status (reports s reportId) = Pending then Inl (Revert ''Report not pending'')
      else if msg_value \<noteq> VOTING_STAKE then Inl (Revert ''Incorrect voting stake amount'')
      else if votes (reports s reportId) sender \<noteq> NoVote then Inl (Revert ''Already voted'')
      else
        let report = reports s reportId;
            report1 = (if \<not> validatorExists (validators report) sender
                       then report\<lparr>validators := validators report @ [sender]\<rparr>
                       else report);
            report2 = report1\<lparr>votes := (votes report1)(sender := (if isValid then Valid else Invalid)),
                        validatorStakes := (validatorStakes report1)(sender := msg_value)\<rparr>;
            report3 = (if isValid then report2\<lparr>validVotes := validVotes report2 + 1\<rparr>
                       else report2\<lparr>invalidVotes := invalidVotes report2 + 1\<rparr>);
            s1 = s\<lparr>reports := (reports s)(reportId := report3),
                   validatorReports :=
                     (validatorReports s)(sender := validatorReports s sender @ [reportId])\<rparr>
        in if length (validators report3) \<ge> MIN_VALIDATORS then finalizeReport reportId s1
           else Inr s1)"

text \<open>\<^verbatim>\<open>getReport\<close>, a view: the stored fields, or a revert.\<close>

definition getReport :: "nat \<Rightarrow> registry \<Rightarrow> error + Report" where
  "getReport reportId s =
     (if \<not> reportId \<le> reportIds s then Inl (Revert ''Report does not exist'')
      else Inr (reports s reportId))"

text \<open>
  \<^verbatim>\<open>emergencyWithdraw\<close> (\<^verbatim>\<open>onlyOwner\<close>) and \<^verbatim>\<open>receive\<close>. The calls
  inherited from \<^verbatim>\<open>Ownable\<close> that hand the ownership over are outside the sources
  and are left out; they change nothing but the owner.
\<close>

definition emergencyWithdraw :: "address \<Rightarrow> registry \<Rightarrow> error + registry" where
  "emergencyWithdraw sender s =
     (if sender \<noteq> owner s then Inl (Revert ''OwnableUnauthorizedAccount'')
      else transfer (owner s) (balance s) s)"

definition receiveEther :: "address \<Rightarrow> nat \<Rightarrow> registry \<Rightarrow> error + registry" where
  "receiveEther sender msg_value s = payIn sender msg_value s"

text \<open>The state-changing calls of the contract, and the states they reach.\<close>

datatype call =
    RegisterValidator address nat
  | SubmitReportWithStake address nat nat string string string string
  | VoteOnReport address nat nat nat bool
  | EmergencyWithdraw address
  | ReceiveEther address nat

fun exec :: "call \<Rightarrow> registry \<Rightarrow> error + registry" where
  "exec (RegisterValidator sender now) s = registerValidator sender now s"
| "exec (SubmitReportWithStake sender v now rType tValue descr rHash) s =
     submitReportWithStake sender v now rType tValue descr rHash s"
| "exec (VoteOnReport sender v now reportId isValid) s = voteOnReport sender v now reportId isValid s"
| "exec (EmergencyWithdraw sender) s = emergencyWithdraw sender s"
| "exec (ReceiveEther sender v) s = receiveEther sender v s"

inductive reachable :: "registry \<Rightarrow> bool" where
  reachable_deploy: "reachable (deploy deployer funds acct)"
| reachable_exec: "reachable s \<Longrightarrow> exec c s = Inr s' \<Longrightarrow> reachable s'"

subsection \<open>Notions used to state the properties of the registry\<close>

text \<open>The ether of all accounts other than the contract.\<close>

definition totalAccounts :: "registry \<Rightarrow> nat" where
  "totalAccounts s = sum (accounts s) UNIV"

text \<open>A run of transfers, one per list entry: the common shape of the two payout loops.\<close>

fun payouts :: "(address \<Rightarrow> nat) \<Rightarrow> address list \<Rightarrow> registry \<Rightarrow> error + registry" where
  "payouts amt [] s = Inr s"
| "payouts amt (v # rest) s =
     (case transfer v (amt v) s of Inl e \<Rightarrow> Inl e | Inr s' \<Rightarrow> payouts amt rest s')"

text \<open>What an account is paid by a run of transfers over \<open>vs\<close>.\<close>

definition paidTo :: "(address \<Rightarrow> nat) \<Rightarrow> address list \<Rightarrow> address \<Rightarrow> nat" where
  "paidTo amt vs a = sum_list (map amt (filter (\<lambda>v. v = a) vs))"

text \<open>
  The stakes the contract has taken and not yet settled: the report stake and the voting
  stakes of every report that is still \<open>Pending\<close>.
\<close>

definition reportLocked :: "Report \<Rightarrow> nat" where
  "reportLocked r =
     (if status r = Pending
      then stakeAmount r + sum_list (map (validatorStakes r) (validators r))
      else 0)"

definition lockedStakes :: "registry \<Rightarrow> nat" where
  "lockedStakes s = sum_list (map (\<lambda>i. reportLocked (reports s i)) [0..<Suc (reportIds s)])"

text \<open>
  The contract keeps no reward pool of its own: what it holds beyond the locked stakes is
  all there is to pay rewards from, and that is nothing when it holds less than the locked
  stakes. \<open>engineTotal\<close> is the sum that the specification calls the value held by the
  engine.
\<close>

definition rewardPoolBalance :: "registry \<Rightarrow> nat" where
  "rewardPoolBalance s = balance s - lockedStakes s"

definition engineTotal :: "registry \<Rightarrow> nat" where
  "engineTotal s = totalAccounts s + lockedStakes s + rewardPoolBalance s"

text \<open>The invariant of a report, and of the registry.\<close>

definition report_inv :: "Report \<Rightarrow> bool" where
  "report_inv r \<longleftrightarrow>
     distinct (validators r) \<and>
     (\<forall>a. (a \<in> set (validators r)) = (votes r a \<noteq> NoVote)) \<and>
     validVotes r = length (filter (\<lambda>v. votes r v = Valid) (validators r)) \<and>
     invalidVotes r = length (filter (\<lambda>v. votes r v = Invalid) (validators r)) \<and>
     (\<forall>a. a \<in> set (validators r) \<longrightarrow> validatorStakes r a = VOTING_STAKE) \<and>
     length (validators r) \<le> MIN_VALIDATORS \<and>
     ((status r = Pending) = (length (validators r) < MIN_VALIDATORS)) \<and>
     status r \<noteq> Expired"

definition registry_inv :: "registry \<Rightarrow> bool" where
  "registry_inv s \<longleftrightarrow>
     (\<forall>i. report_inv (reports s i)) \<and> (\<forall>i. reportIds s < i \<longrightarrow> reports s i = emptyReport)"

text \<open>What the two payout loops transfer to a validator.\<close>

definition validatedPay :: "Report \<Rightarrow> address \<Rightarrow> nat" where
  "validatedPay r v = validatorStakes r v + (if votes r v = Valid then VALIDATOR_REWARD else 0)"

definition rejectedPay :: "Report \<Rightarrow> nat \<Rightarrow> address \<Rightarrow> nat" where
  "rejectedPay r share v = validatorStakes r v + (if votes r v = Invalid then share else 0)"

text \<open>
  The state in which \<^verbatim>\<open>voteOnReport\<close> checks for a quorum: the stake is paid in and
  the vote of \<open>sender\<close> is recorded on report \<open>i\<close>.
\<close>

definition recordedVote :: "address \<Rightarrow> nat \<Rightarrow> bool \<Rightarrow> registry \<Rightarrow> registry" where
  "recordedVote sender i isValid s =
     (let r = reports s i;
          r' = r\<lparr>validators := (if sender \<in> set (validators r) then validators r
                                 else validators r @ [sender]),
                 votes := (votes r)(sender := (if isValid then Valid else Invalid)),
                 validatorStakes := (validatorStakes r)(sender := VOTING_STAKE),
                 validVotes := (if isValid then validVotes r + 1 else validVotes r),
                 invalidVotes := (if isValid then invalidVotes r else invalidVotes r + 1)\<rparr>
      in s\<lparr>accounts := (accounts s)(sender := accounts s sender - VOTING_STAKE),
            balance := balance s + VOTING_STAKE,
            reports := (reports s)(i := r'),
            validatorReports := (validatorReports s)(sender := validatorReports s sender @ [i])\<rparr>)"

text \<open>A sequence of calls, each on the state the one before it left.\<close>

fun run :: "call list \<Rightarrow> registry \<Rightarrow> error + registry" where
  "run [] s = Inr s"
| "run (c # cs) s = (case exec c s of Inl e \<Rightarrow> Inl e | Inr s' \<Rightarrow> run cs s')"

text \<open>
  Concrete scenarios. The deployer is account 1, the reporters are 10 and 11, the registered
  validators 21, 22 and 23; each of them starts with one ether.
\<close>

definition scenarioAccounts :: "address \<Rightarrow> nat" where
  "scenarioAccounts = (\<lambda>a. if a \<in> {1, 10, 11, 21, 22, 23} then 10 ^ 18 else 0)"

definition scenarioSetup :: "call list" where
  "scenarioSetup =
     [RegisterValidator 21 100, RegisterValidator 22 100, RegisterValidator 23 100,
      SubmitReportWithStake 10 REPORT_STAKE 1000 ''phishing_url'' ''http://login.example''
        ''fake login page'' ''QmHash'']"

text \<open>Scenario B of the specification: the votes are invalid, invalid, valid.\<close>

definition scenarioB :: "call list" where
  "scenarioB = scenarioSetup @
     [VoteOnReport 21 VOTING_STAKE 2000 1 False, VoteOnReport 22 VOTING_STAKE 2000 1 False,
      VoteOnReport 23 VOTING_STAKE 2000 1 True]"

definition stateB :: registry where
  "stateB = projr (run scenarioB (deploy 1 0 scenarioAccounts))"

text \<open>
  Scenario A of the specification: the votes are valid, valid, invalid. The deployer first
  sends the contract a tenth of an ether, from which the rewards are paid. \<open>stateA\<close> is
  the state before the third vote, \<open>stateA'\<close> the state after it.
\<close>

definition scenarioA :: "call list" where
  "scenarioA = ReceiveEther 1 (10 ^ 17) # scenarioSetup @
     [VoteOnReport 21 VOTING_STAKE 2000 1 True, VoteOnReport 22 VOTING_STAKE 2000 1 True]"

definition stateA :: registry where
  "stateA = projr (run scenarioA (deploy 1 0 scenarioAccounts))"

definition stateA' :: registry where
  "stateA' = projr (voteOnReport 23 VOTING_STAKE 2000 1 False stateA)"

text \<open>Scenario B before its third vote.\<close>

definition stateB0 :: registry where
  "stateB0 = projr (run (butlast scenarioB) (deploy 1 0 scenarioAccounts))"

text \<open>
  A report left without a quorum: \<open>stateP\<close> is the state after one vote on report 1, whose
  voting deadline is \<open>1000 + VOTING_PERIOD\<close>.
\<close>

definition stateP :: registry where
  "stateP = projr (run (scenarioSetup @ [VoteOnReport 21 VOTING_STAKE 2000 1 True])
                     (deploy 1 0 scenarioAccounts))"

text \<open>
  Two pending reports and no other funds: \<open>stateC\<close> is the state after two valid votes on
  report 1, \<open>stateC'\<close> the state after the third.
\<close>

definition scenarioC :: "call list" where
  "scenarioC = scenarioSetup @
     [SubmitReportWithStake 11 REPORT_STAKE 1000 ''scam_wallet'' ''0xabc'' ''drainer'' ''QmOther'',
      VoteOnReport 21 VOTING_STAKE 2000 1 True, VoteOnReport 22 VOTING_STAKE 2000 1 True]"

definition stateC :: registry where
  "stateC = projr (run scenarioC (deploy 1 0 scenarioAccounts))"

definition stateC' :: registry where
  "stateC' = projr (voteOnReport 23 VOTING_STAKE 2000 1 True stateC)"

section \<open>ReputationSystem\<close>

definition MIN_STAKE_AMOUNT :: nat where "MIN_STAKE_AMOUNT = 100 * 10 ^ 18"
definition MAX_STAKE_PERIOD :: nat where "MAX_STAKE_PERIOD = 365 * 86400"
definition MIN_STAKE_PERIOD :: nat where "MIN_STAKE_PERIOD = 7 * 86400"
definition SLASHING_PENALTY :: nat where "SLASHING_PENALTY = 10"
definition REWARD_CLAIM_COOLDOWN :: nat where "REWARD_CLAIM_COOLDOWN = 86400"
definition MAX_STAKES_PER_USER :: nat where "MAX_STAKES_PER_USER = 10"

text \<open>The bound of \<^verbatim>\<open>uint256\<close>, and the least \<^verbatim>\<open>int256\<close>.\<close>

definition UINT256_LIMIT :: nat where "UINT256_LIMIT = 2 ^ 256"
definition INT256_MIN :: int where "INT256_MIN = - (2 ^ 255)"

text \<open>
  The enum \<^verbatim>\<open>StakeType { Report, Vote, Validator }\<close>, its members suffixed, and
  \<^verbatim>\<open>ReputationTier\<close>.
\<close>

datatype StakeType = ReportStake | VoteStake | ValidatorStake

datatype ReputationTier = Bronze | Silver | Gold | Platinum | Diamond

text \<open>The struct \<^verbatim>\<open>Stake\<close>; its field \<^verbatim>\<open>timestamp\<close> is \<open>stakeTimestamp\<close>.\<close>

record Stake =
  amount :: nat
  stakeTimestamp :: nat
  lockPeriod :: nat
  stakeType :: StakeType
  active :: bool
  reputationMultiplier :: nat

record ReputationProfile =
  baseReputation :: nat
  stakedReputation :: nat
  totalReputation :: nat
  tier :: ReputationTier
  lastUpdate :: nat
  reportsSubmitted :: nat
  votesCast :: nat
  correctVotes :: nat
  falseReports :: nat
  slashingCount :: nat

text \<open>The struct \<^verbatim>\<open>RewardPool\<close>; its mapping \<^verbatim>\<open>tierMultipliers\<close> is \<open>poolTierMultipliers\<close>.\<close>

record RewardPool =
  totalRewards :: nat
  distributedRewards :: nat
  lastDistribution :: nat
  distributionInterval :: nat
  poolTierMultipliers :: "ReputationTier \<Rightarrow> nat"

text \<open>
  The storage of the contract, with \<open>paused\<close> of \<^verbatim>\<open>Pausable\<close> and the owner of
  \<^verbatim>\<open>Ownable\<close> (\<open>rs_owner\<close>). The staking token is an ERC-20 contract outside the
  sources; the model keeps what the calls of this contract read and change of it: the
  tokens of every other account (\<open>tokenBalance\<close>), the tokens this contract holds
  (\<open>tokenHeld\<close>), and what each account allows this contract to take (\<open>tokenAllowance\<close>).
\<close>

record reputationSystem =
  stakeCounter :: nat
  reputationProfiles :: "address \<Rightarrow> ReputationProfile"
  userStakes :: "address \<Rightarrow> nat \<Rightarrow> Stake"
  userStakeCount :: "address \<Rightarrow> nat"
  tierThresholds :: "ReputationTier \<Rightarrow> nat"
  tierMultipliers :: "ReputationTier \<Rightarrow> nat"
  stakeTypeMultipliers :: "StakeType \<Rightarrow> nat"
  pendingRewards :: "address \<Rightarrow> nat"
  lastRewardClaim :: "address \<Rightarrow> nat"
  rewardPool :: RewardPool
  paused :: bool
  rs_owner :: address
  tokenBalance :: "address \<Rightarrow> nat"
  tokenHeld :: nat
  tokenAllowance :: "address \<Rightarrow> nat"

definition emptyStake :: Stake where
  "emptyStake = \<lparr>amount = 0, stakeTimestamp = 0, lockPeriod = 0, stakeType = ReportStake,
     active = False, reputationMultiplier = 0\<rparr>"

definition emptyProfile :: ReputationProfile where
  "emptyProfile = \<lparr>baseReputation = 0, stakedReputation = 0, totalReputation = 0,
     tier = Bronze, lastUpdate = 0, reportsSubmitted = 0, votesCast = 0, correctVotes = 0,
     falseReports = 0, slashingCount = 0\<rparr>"

definition initialMultipliers :: "ReputationTier \<Rightarrow> nat" where
  "initialMultipliers t =
     (case t of Bronze \<Rightarrow> 100 | Silver \<Rightarrow> 120 | Gold \<Rightarrow> 150 | Platinum \<Rightarrow> 200 | Diamond \<Rightarrow> 300)"

text \<open>
  The state after the constructor ran for \<open>deployer\<close>, with the token's balances and
  allowances as they are then.
\<close>

definition rs_deploy ::
  "address \<Rightarrow> (address \<Rightarrow> nat) \<Rightarrow> nat \<Rightarrow> (address \<Rightarrow> nat) \<Rightarrow> reputationSystem" where
  "rs_deploy deployer bal held allow = \<lparr>stakeCounter = 0,
     reputationProfiles = (\<lambda>_. emptyProfile), userStakes = (\<lambda>_ _. emptyStake),
     userStakeCount = (\<lambda>_. 0),
     tierThresholds =
       (\<lambda>t. case t of Bronze \<Rightarrow> 0 | Silver \<Rightarrow> 50 | Gold \<Rightarrow> 100 | Platinum \<Rightarrow> 250 | Diamond \<Rightarrow> 500),
     tierMultipliers = initialMultipliers,
     stakeTypeMultipliers =
       (\<lambda>t. case t of ReportStake \<Rightarrow> 150 | VoteStake \<Rightarrow> 120 | ValidatorStake \<Rightarrow> 200),
     pendingRewards = (\<lambda>_. 0), lastRewardClaim = (\<lambda>_. 0),
     rewardPool = \<lparr>totalRewards = 0, distributedRewards = 0, lastDistribution = 0,
       distributionInterval = 7 * 86400, poolTierMultipliers = initialMultipliers\<rparr>,
     paused = False, rs_owner = deployer,
     tokenBalance = bal, tokenHeld = held, tokenAllowance = allow\<rparr>"

text \<open>
  \<^verbatim>\<open>stakingToken.safeTransferFrom(user, address(this), n)\<close>, as an OpenZeppelin
  ERC-20 token does it: the greatest \<^verbatim>\<open>uint256\<close> is an unlimited allowance, which a
  transfer leaves as it is.
\<close>

definition safeTransferFrom :: "address \<Rightarrow> nat \<Rightarrow> reputationSystem \<Rightarrow> error + reputationSystem" where
  "safeTransferFrom user n s =
     (if tokenAllowance s user < n then Inl (Revert ''ERC20InsufficientAllowance'')
      else if tokenBalance s user < n then Inl (Revert ''ERC20InsufficientBalance'')
      else Inr (s\<lparr>tokenAllowance :=
                    (if tokenAllowance s user = UINT256_LIMIT - 1 then tokenAllowance s
                     else (tokenAllowance s)(user := tokenAllowance s user - n)),
                  tokenBalance := (tokenBalance s)(user := tokenBalance s user - n),
                  tokenHeld := tokenHeld s + n\<rparr>))"

text \<open>\<^verbatim>\<open>stakingToken.safeTransfer(user, n)\<close>.\<close>

definition safeTransfer :: "address \<Rightarrow> nat \<Rightarrow> reputationSystem \<Rightarrow> error + reputationSystem" where
  "safeTransfer user n s =
     (if tokenHeld s < n then Inl (Revert ''ERC20InsufficientBalance'')
      else Inr (s\<lparr>tokenHeld := tokenHeld s - n,
                  tokenBalance := (tokenBalance s)(user := tokenBalance s user + n)\<rparr>))"

text \<open>
  The loop of \<^verbatim>\<open>_updateStakedReputation\<close>, over the stake ids \<open>1\<close> to \<open>n\<close>: the sum
  of the active amounts. The partial sums only grow, so one of them overflows exactly when
  the last one does, which \<open>updateStakedReputation\<close> checks.
\<close>

fun totalStaked_loop :: "(nat \<Rightarrow> Stake) \<Rightarrow> nat \<Rightarrow> nat" where
  "totalStaked_loop stakes 0 = 0"
| "totalStaked_loop stakes (Suc n) =
     totalStaked_loop stakes n
       + (if active (stakes (Suc n)) then amount (stakes (Suc n)) else 0)"

definition updateStakedReputation :: "address \<Rightarrow> reputationSystem \<Rightarrow> error + reputationSystem" where
  "updateStakedReputation user s =
     (let profile = reputationProfiles s user;
          totalStaked = totalStaked_loop (userStakes s user) (userStakeCount s user);
          staked = totalStaked div 10 ^ 18
      in if \<not> totalStaked < UINT256_LIMIT then Inl Panic
         else if \<not> baseReputation profile + staked < UINT256_LIMIT then Inl Panic
         else Inr (s\<lparr>reputationProfiles := (reputationProfiles s)(user :=
                      profile\<lparr>stakedReputation := staked,
                              totalReputation := baseReputation profile + staked\<rparr>)\<rparr>))"

text \<open>\<^verbatim>\<open>_calculateTier\<close>.\<close>

definition calculateTier :: "reputationSystem \<Rightarrow> nat \<Rightarrow> ReputationTier" where
  "calculateTier s totalRep =
     (if totalRep \<ge> tierThresholds s Diamond then Diamond
      else if totalRep \<ge> tierThresholds s Platinum then Platinum
      else if totalRep \<ge> tierThresholds s Gold then Gold
      else if totalRep \<ge> tierThresholds s Silver then Silver
      else Bronze)"

text \<open>
  \<^verbatim>\<open>depositStake\<close>, with its modifiers \<^verbatim>\<open>whenNotPaused\<close> and
  \<^verbatim>\<open>onlyValidStaker\<close>.
\<close>

definition depositStake ::
  "address \<Rightarrow> nat \<Rightarrow> nat \<Rightarrow> nat \<Rightarrow> StakeType \<Rightarrow> reputationSystem \<Rightarrow> error + reputationSystem" where
  "depositStake sender now amt period sType s =
     (if paused s then Inl (Revert ''EnforcedPause'')
      else if \<not> baseReputation (reputationProfiles s sender) \<ge> 10
        then Inl (Revert ''Insufficient reputation to stake'')
      else if \<not> amt \<ge> MIN_STAKE_AMOUNT then Inl (Revert ''Amount below minimum stake'')
      else if \<not> (period \<ge> MIN_STAKE_PERIOD \<and> period \<le> MAX_STAKE_PERIOD)
        then Inl (Revert ''Invalid lock period'')
      else if \<not> userStakeCount s sender < MAX_STAKES_PER_USER
        then Inl (Revert ''Maximum stakes per user exceeded'')
      else
        case safeTransferFrom sender amt s of Inl e \<Rightarrow> Inl e | Inr s1 \<Rightarrow>
          let stakeId = stakeCounter s1 + 1;
              s2 = s1\<lparr>stakeCounter := stakeId,
                     userStakes := (userStakes s1)(sender := (userStakes s1 sender)(stakeId :=
                       \<lparr>amount = amt, stakeTimestamp = now, lockPeriod = period,
                        stakeType = sType, active = True,
                        reputationMultiplier = stakeTypeMultipliers s1 sType\<rparr>)),
                     userStakeCount := (userStakeCount s1)(sender := userStakeCount s1 sender + 1)\<rparr>
          in updateStakedReputation sender s2)"

text \<open>
  \<^verbatim>\<open>withdrawStake\<close>, with its modifiers \<^verbatim>\<open>whenNotPaused\<close>,
  \<^verbatim>\<open>onlyStakeOwner\<close> and \<^verbatim>\<open>onlyActiveStake\<close>.
\<close>

definition withdrawStake :: "address \<Rightarrow> nat \<Rightarrow> nat \<Rightarrow> reputationSystem \<Rightarrow> error + reputationSystem" where
  "withdrawStake sender now stakeId s =
     (let stake = userStakes s sender stakeId in
      if paused s then Inl (Revert ''EnforcedPause'')
      else if \<not> amount stake > 0 then Inl (Revert ''Stake does not exist or not owned by user'')
      else if \<not> active stake then Inl (Revert ''Stake is not active'')
      else if now < stakeTimestamp stake + lockPeriod stake
              \<and> \<not> amount stake * SLASHING_PENALTY < UINT256_LIMIT then Inl Panic
      else
        let penalty = (if now < stakeTimestamp stake + lockPeriod stake
                       then (amount stake * SLASHING_PENALTY) div 100 else 0);
            withdrawAmount = (if now < stakeTimestamp stake + lockPeriod stake
                              then amount stake - penalty else amount stake)
        in if \<not> userStakeCount s sender \<ge> 1 then Inl Panic
           else
             let s1 = s\<lparr>userStakes := (userStakes s)(sender := (userStakes s sender)(stakeId :=
                            stake\<lparr>active := False\<rparr>)),
                        userStakeCount := (userStakeCount s)(sender := userStakeCount s sender - 1)\<rparr>
             in case updateStakedReputation sender s1 of Inl e \<Rightarrow> Inl e | Inr s2 \<Rightarrow>
                (case safeTransfer sender withdrawAmount s2 of Inl e \<Rightarrow> Inl e | Inr s3 \<Rightarrow>
                   if penalty > 0
                   then Inr (s3\<lparr>rewardPool := (rewardPool s3)\<lparr>totalRewards :=
                               totalRewards (rewardPool s3) + penalty\<rparr>\<rparr>)
                   else Inr s3))"

text \<open>
  \<^verbatim>\<open>updateReputation\<close>. The source admits the owner and the contract itself as
  callers; the contract never calls it, so the sender of the model is an outside account.
  \<open>change\<close> is an \<^verbatim>\<open>int256\<close>: negating its least value panics.
\<close>

definition updateReputation ::
  "address \<Rightarrow> nat \<Rightarrow> address \<Rightarrow> int \<Rightarrow> bool \<Rightarrow> reputationSystem \<Rightarrow> error + reputationSystem" where
  "updateReputation sender now user change isCorrectVote s =
     (if \<not> sender = rs_owner s then Inl (Revert ''Unauthorized caller'')
      else
        let profile0 = reputationProfiles s user;
            profile1 = (if baseReputation profile0 = 0
                        then profile0\<lparr>baseReputation := 10, tier := Bronze, lastUpdate := now\<rparr>
                        else profile0)
        in if change > 0 \<and> \<not> baseReputation profile1 + nat change < UINT256_LIMIT then Inl Panic
           else if \<not> change > 0 \<and> change = INT256_MIN then Inl Panic
           else
             let profile2 =
                   (if change > 0
                    then (let p = profile1\<lparr>baseReputation := baseReputation profile1 + nat change\<rparr>
                          in if isCorrectVote then p\<lparr>correctVotes := correctVotes p + 1\<rparr> else p)
                    else (let decrease = nat (- change);
                              p = (if baseReputation profile1 \<ge> decrease
                                   then profile1\<lparr>baseReputation := baseReputation profile1 - decrease\<rparr>
                                   else profile1\<lparr>baseReputation := 0\<rparr>)
                          in if \<not> isCorrectVote then p\<lparr>falseReports := falseReports p + 1\<rparr> else p));
                 s1 = s\<lparr>reputationProfiles := (reputationProfiles s)(user := profile2)\<rparr>
             in case updateStakedReputation user s1 of Inl e \<Rightarrow> Inl e | Inr s2 \<Rightarrow>
                  let profile3 = reputationProfiles s2 user in
                  Inr (s2\<lparr>reputationProfiles := (reputationProfiles s2)(user :=
                         profile3\<lparr>tier := calculateTier s2 (totalReputation profile3)\<rparr>)\<rparr>))"

text \<open>\<^verbatim>\<open>slashUser\<close> (\<^verbatim>\<open>onlyOwner\<close>, \<^verbatim>\<open>onlyStakeOwner\<close>, \<^verbatim>\<open>onlyActiveStake\<close>).\<close>

definition slashUser :: "address \<Rightarrow> address \<Rightarrow> nat \<Rightarrow> reputationSystem \<Rightarrow> error + reputationSystem" where
  "slashUser sender user stakeId s =
     (let stake = userStakes s user stakeId in
      if sender \<noteq> rs_owner s then Inl (Revert ''OwnableUnauthorizedAccount'')
      else if \<not> amount stake > 0 then Inl (Revert ''Stake does not exist or not owned by user'')
      else if \<not> active stake then Inl (Revert ''Stake is not active'')
      else if \<not> amount stake * SLASHING_PENALTY < UINT256_LIMIT then Inl Panic
      else
        let slashAmount = (amount stake * SLASHING_PENALTY) div 100;
            profile = reputationProfiles s user;
            s1 = s\<lparr>userStakes := (userStakes s)(user := (userStakes s user)(stakeId :=
                       stake\<lparr>amount := amount stake - slashAmount\<rparr>)),
                   reputationProfiles := (reputationProfiles s)(user :=
                       profile\<lparr>slashingCount := slashingCount profile + 1\<rparr>)\<rparr>
        in case updateStakedReputation user s1 of Inl e \<Rightarrow> Inl e | Inr s2 \<Rightarrow>
             Inr (s2\<lparr>rewardPool := (rewardPool s2)\<lparr>totalRewards :=
                    totalRewards (rewardPool s2) + slashAmount\<rparr>\<rparr>))"

text \<open>\<^verbatim>\<open>distributeRewards\<close> (\<^verbatim>\<open>onlyOwner\<close>): the source distributes nothing.\<close>

definition distributeRewards :: "address \<Rightarrow> nat \<Rightarrow> reputationSystem \<Rightarrow> error + reputationSystem" where
  "distributeRewards sender now s =
     (if sender \<noteq> rs_owner s then Inl (Revert ''OwnableUnauthorizedAccount'')
      else if \<not> now \<ge> lastDistribution (rewardPool s) + distributionInterval (rewardPool s)
        then Inl (Revert ''Distribution interval not reached'')
      else
        let totalDistributed = 0 in
        Inr (s\<lparr>rewardPool := (rewardPool s)\<lparr>lastDistribution := now,
               distributedRewards := distributedRewards (rewardPool s) + totalDistributed\<rparr>\<rparr>))"

text \<open>\<^verbatim>\<open>claimRewards\<close> (\<^verbatim>\<open>whenNotPaused\<close>).\<close>

definition claimRewards :: "address \<Rightarrow> nat \<Rightarrow> reputationSystem \<Rightarrow> error + reputationSystem" where
  "claimRewards sender now s =
     (if paused s then Inl (Revert ''EnforcedPause'')
      else if \<not> now \<ge> lastRewardClaim s sender + REWARD_CLAIM_COOLDOWN
        then Inl (Revert ''Claim cooldown not reached'')
      else
        let rewards = pendingRewards s sender in
        if \<not> rewards > 0 then Inl (Revert ''No rewards to claim'')
        else safeTransfer sender rewards
               (s\<lparr>pendingRewards := (pendingRewards s)(sender := 0),
                  lastRewardClaim := (lastRewardClaim s)(sender := now)\<rparr>))"

text \<open>The owner's switches.\<close>

definition setPaused :: "address \<Rightarrow> bool \<Rightarrow> reputationSystem \<Rightarrow> error + reputationSystem" where
  "setPaused sender p s =
     (if sender \<noteq> rs_owner s then Inl (Revert ''OwnableUnauthorizedAccount'')
      else if paused s = p then Inl (Revert (if p then ''EnforcedPause'' else ''ExpectedPause''))
      else Inr (s\<lparr>paused := p\<rparr>))"

definition updateTierThreshold ::
  "address \<Rightarrow> ReputationTier \<Rightarrow> nat \<Rightarrow> reputationSystem \<Rightarrow> error + reputationSystem" where
  "updateTierThreshold sender t threshold s =
     (if sender \<noteq> rs_owner s then Inl (Revert ''OwnableUnauthorizedAccount'')
      else Inr (s\<lparr>tierThresholds := (tierThresholds s)(t := threshold)\<rparr>))"

definition updateTierMultiplier ::
  "address \<Rightarrow> ReputationTier \<Rightarrow> nat \<Rightarrow> reputationSystem \<Rightarrow> error + reputationSystem" where
  "updateTierMultiplier sender t multiplier s =
     (if sender \<noteq> rs_owner s then Inl (Revert ''OwnableUnauthorizedAccount'')
      else Inr (s\<lparr>tierMultipliers := (tierMultipliers s)(t := multiplier)\<rparr>))"

definition updateStakeTypeMultiplier ::
  "address \<Rightarrow> StakeType \<Rightarrow> nat \<Rightarrow> reputationSystem \<Rightarrow> error + reputationSystem" where
  "updateStakeTypeMultiplier sender t multiplier s =
     (if sender \<noteq> rs_owner s then Inl (Revert ''OwnableUnauthorizedAccount'')
      else Inr (s\<lparr>stakeTypeMultipliers := (stakeTypeMultipliers s)(t := multiplier)\<rparr>))"

text \<open>The state-changing calls of the contract, and a sequence of them.\<close>

datatype rs_call =
    DepositStake address nat nat nat StakeType
  | WithdrawStake address nat nat
  | UpdateReputation address nat address int bool
  | SlashUser address address nat
  | DistributeRewards address nat
  | ClaimRewards address nat
  | SetPaused address bool
  | UpdateTierThreshold address ReputationTier nat
  | UpdateTierMultiplier address ReputationTier nat
  | UpdateStakeTypeMultiplier address StakeType nat

fun rs_exec :: "rs_call \<Rightarrow> reputationSystem \<Rightarrow> error + reputationSystem" where
  "rs_exec (DepositStake sender now amt period sType) s = depositStake sender now amt period sType s"
| "rs_exec (WithdrawStake sender now stakeId) s = withdrawStake sender now stakeId s"
| "rs_exec (UpdateReputation sender now user change isCorrectVote) s =
     updateReputation sender now user change isCorrectVote s"
| "rs_exec (SlashUser sender user stakeId) s = slashUser sender user stakeId s"
| "rs_exec (DistributeRewards sender now) s = distributeRewards sender now s"
| "rs_exec (ClaimRewards sender now) s = claimRewards sender now s"
| "rs_exec (SetPaused sender p) s = setPaused sender p s"
| "rs_exec (UpdateTierThreshold sender t n) s = updateTierThreshold sender t n s"
| "rs_exec (UpdateTierMultiplier sender t n) s = updateTierMultiplier sender t n s"
| "rs_exec (UpdateStakeTypeMultiplier sender t n) s = updateStakeTypeMultiplier sender t n s"

fun rs_run :: "rs_call list \<Rightarrow> reputationSystem \<Rightarrow> error + reputationSystem" where
  "rs_run [] s = Inr s"
| "rs_run (c # cs) s = (case rs_exec c s of Inl e \<Rightarrow> Inl e | Inr s' \<Rightarrow> rs_run cs s')"

text \<open>
  Concrete scenarios. The owner is account 1. Account 7 holds 1000 tokens and lets the
  contract take them; the owner raises its reputation, and it stakes the tokens for 30 days
  at time 1000 (\<open>rsStaked\<close>). Scenario E of the specification withdraws the stake one
  second before the lock period ends (\<open>rsEarly\<close>); \<open>rsLate\<close> withdraws it at the end.
\<close>

definition rsFresh :: reputationSystem where
  "rsFresh = rs_deploy 1 (\<lambda>a. if a = 7 then 1000 * 10 ^ 18 else 0) 0
                        (\<lambda>a. if a = 7 then 1000 * 10 ^ 18 else 0)"

definition rsStaked :: reputationSystem where
  "rsStaked = projr (rs_run [UpdateReputation 1 900 7 50 True,
                             DepositStake 7 1000 (1000 * 10 ^ 18) (30 * 86400) ReportStake] rsFresh)"

definition rsEarly :: reputationSystem where
  "rsEarly = projr (withdrawStake 7 (1000 + 30 * 86400 - 1) 1 rsStaked)"

definition rsLate :: reputationSystem where
  "rsLate = projr (withdrawStake 7 (1000 + 30 * 86400) 1 rsStaked)"

text \<open>A penalty of 3 for account 5, which has no profile yet.\<close>

definition rsPenalised :: reputationSystem where
  "rsPenalised = projr (updateReputation 1 100 5 (- 3) False rsFresh)"

text \<open>A penalty of 100 for account 7 after its deposit, when its base reputation is 60.\<close>

definition rsFloored :: reputationSystem where
  "rsFloored = projr (updateReputation 1 2000 7 (- 100) False rsStaked)"

text \<open>Three penalties in a row for account 5: of 3, of 10 and of 1.\<close>

definition rsThrice :: reputationSystem where
  "rsThrice = projr (rs_run [UpdateReputation 1 100 5 (- 3) False,
                             UpdateReputation 1 200 5 (- 10) False,
                             UpdateReputation 1 300 5 (- 1) False] rsFresh)"

section \<open>PhishBlockRegistry: report submission\<close>

text \<open>
  Of this contract the model keeps what \<^verbatim>\<open>submitReport\<close> reads and writes; votes and
  disputes are left out. Its enums \<^verbatim>\<open>ReportStatus\<close> and \<^verbatim>\<open>EvidenceType\<close> share
  names with those of the other contracts, so their members carry the prefix \<open>Pb\<close>, and
  so do the fields of its struct \<^verbatim>\<open>Report\<close>.
\<close>

definition MIN_REPUTATION_TO_REPORT :: nat where "MIN_REPUTATION_TO_REPORT = 5"
definition RATE_LIMIT_WINDOW :: nat where "RATE_LIMIT_WINDOW = 3600"
definition MAX_SUBMISSIONS_PER_WINDOW :: nat where "MAX_SUBMISSIONS_PER_WINDOW = 5"

type_synonym bytes32 = "256 word"

datatype PbReportStatus = PbPending | PbVerified | PbDisputed | PbResolved

datatype PbEvidenceType = PbURL | PbWallet | PbScreenshot | PbDocument

record PbReport =
  pb_reportId :: bytes32
  pb_reporter :: address
  pb_targetUrl :: string
  pb_targetWallet :: string
  pb_description :: string
  pb_ipfsHash :: string
  pb_evidenceType :: PbEvidenceType
  pb_status :: PbReportStatus
  pb_timestamp :: nat
  pb_upvotes :: nat
  pb_downvotes :: nat
  pb_disputeCount :: nat
  pb_exists :: bool

record phishBlockRegistry =
  pb_reportCounter :: nat
  pb_reports :: "bytes32 \<Rightarrow> PbReport"
  userReputation :: "address \<Rightarrow> nat"
  lastSubmissionTime :: "address \<Rightarrow> nat"
  submissionCount :: "address \<Rightarrow> nat"
  urlBlacklist :: "string \<Rightarrow> bool"
  walletBlacklist :: "string \<Rightarrow> bool"
  pb_paused :: bool
  pb_owner :: address

definition emptyPbReport :: PbReport where
  "emptyPbReport = \<lparr>pb_reportId = 0, pb_reporter = 0, pb_targetUrl = [], pb_targetWallet = [],
     pb_description = [], pb_ipfsHash = [], pb_evidenceType = PbURL, pb_status = PbPending,
     pb_timestamp = 0, pb_upvotes = 0, pb_downvotes = 0, pb_disputeCount = 0,
     pb_exists = False\<rparr>"

text \<open>The state after the constructor: the owner starts with reputation 100.\<close>

definition pb_deploy :: "address \<Rightarrow> phishBlockRegistry" where
  "pb_deploy deployer = \<lparr>pb_reportCounter = 0, pb_reports = (\<lambda>_. emptyPbReport),
     userReputation = (\<lambda>a. if a = deployer then 100 else 0),
     lastSubmissionTime = (\<lambda>_. 0), submissionCount = (\<lambda>_. 0),
     urlBlacklist = (\<lambda>_. False), walletBlacklist = (\<lambda>_. False),
     pb_paused = False, pb_owner = deployer\<rparr>"

text \<open>
  \<^verbatim>\<open>submitReport\<close>, with its modifiers \<^verbatim>\<open>whenNotPaused\<close>,
  \<^verbatim>\<open>onlyValidReporter\<close> and \<^verbatim>\<open>rateLimited\<close> in the source's order. The
  \<^verbatim>\<open>keccak256\<close> of the packed fields is the argument \<open>hash\<close>.
\<close>

definition submitReport ::
  "(address \<Rightarrow> string \<Rightarrow> string \<Rightarrow> string \<Rightarrow> string \<Rightarrow> nat \<Rightarrow> nat \<Rightarrow> bytes32) \<Rightarrow>
   address \<Rightarrow> nat \<Rightarrow> string \<Rightarrow> string \<Rightarrow> string \<Rightarrow> string \<Rightarrow> PbEvidenceType \<Rightarrow>
   phishBlockRegistry \<Rightarrow> error + phishBlockRegistry" where
  "submitReport hash sender now targetUrl targetWallet descr ipfs eType s =
     (if pb_paused s then Inl (Revert ''EnforcedPause'')
      else if \<not> userReputation s sender \<ge> MIN_REPUTATION_TO_REPORT
        then Inl (Revert ''Insufficient reputation to report'')
      else if now < lastSubmissionTime s sender then Inl Panic
      else if \<not> (now - lastSubmissionTime s sender \<ge> RATE_LIMIT_WINDOW \<or>
                  submissionCount s sender < MAX_SUBMISSIONS_PER_WINDOW)
        then Inl (Revert ''Rate limit exceeded'')
      else if \<not> (length targetUrl > 0 \<or> length targetWallet > 0)
        then Inl (Revert ''Must provide either URL or wallet address'')
      else if \<not> length descr > 0 then Inl (Revert ''Description cannot be empty'')
      else if \<not> length ipfs > 0 then Inl (Revert ''IPFS hash cannot be empty'')
      else if length targetUrl > 0 \<and> urlBlacklist s targetUrl
        then Inl (Revert ''URL already blacklisted'')
      else if length targetWallet > 0 \<and> walletBlacklist s targetWallet
        then Inl (Revert ''Wallet already blacklisted'')
      else
        let counter = pb_reportCounter s + 1;
            reportId = hash sender targetUrl targetWallet descr ipfs now counter
        in Inr (s\<lparr>pb_reportCounter := counter,
                  pb_reports := (pb_reports s)(reportId :=
                    \<lparr>pb_reportId = reportId, pb_reporter = sender, pb_targetUrl = targetUrl,
                     pb_targetWallet = targetWallet, pb_description = descr, pb_ipfsHash = ipfs,
                     pb_evidenceType = eType, pb_status = PbPending, pb_timestamp = now,
                     pb_upvotes = 0, pb_downvotes = 0, pb_disputeCount = 0, pb_exists = True\<rparr>),
                  submissionCount := (submissionCount s)(sender :=
                    (if now - lastSubmissionTime s sender \<ge> RATE_LIMIT_WINDOW then 1
                     else submissionCount s sender + 1)),
                  lastSubmissionTime := (lastSubmissionTime s)(sender := now)\<rparr>))"

text \<open>The first stake-backed report of account 10, which has no reputation anywhere.\<close>

definition stateS :: registry where
  "stateS = projr (submitReportWithStake 10 REPORT_STAKE 1000 ''phishing_url''
                     ''http://login.example'' ''fake login page'' ''QmHash''
                     (deploy 1 0 scenarioAccounts))"

section \<open>EvidenceValidator\<close>

text \<open>
  The model keeps the storage that submitting and validating evidence read and write; the
  content analysis and the pattern and domain lists, which these calls never touch, are
  left out. The members of \<^verbatim>\<open>EvidenceStatus\<close> carry the prefix \<open>Ev\<close>; fields whose
  names are taken carry \<open>ev_\<close>, and the fields of \<^verbatim>\<open>ValidationResult\<close> and
  \<^verbatim>\<open>IPFSMetadata\<close> carry \<open>vr_\<close> and \<open>meta_\<close>.
\<close>

definition MIN_VALIDATION_REPUTATION :: nat where "MIN_VALIDATION_REPUTATION = 50"
definition MAX_FILE_SIZE :: nat where "MAX_FILE_SIZE = 10 * 1024 * 1024"
definition MIN_VALIDATIONS_REQUIRED :: nat where "MIN_VALIDATIONS_REQUIRED = 3"
definition VALIDATION_TIMEOUT :: nat where "VALIDATION_TIMEOUT = 7 * 86400"
definition IPFS_HASH_LENGTH :: nat where "IPFS_HASH_LENGTH = 46"
definition REPUTATION_REWARD_VALIDATION :: nat where "REPUTATION_REWARD_VALIDATION = 2"
definition REPUTATION_PENALTY_WRONG_VALIDATION :: nat where "REPUTATION_PENALTY_WRONG_VALIDATION = 5"

datatype EvidenceStatus = EvPending | EvValidated | EvRejected | EvUnderReview

datatype EvidenceType = Screenshot | Document | URL | Wallet | Metadata

datatype ValidationLevel = Basic | Standard | Advanced | Expert

record Evidence =
  evidenceId :: bytes32
  submitter :: address
  ipfsHash :: string
  evidenceType :: EvidenceType
  ev_status :: EvidenceStatus
  validationLevel :: ValidationLevel
  ev_timestamp :: nat
  fileSize :: nat
  mimeType :: string
  originalUrl :: string
  ev_description :: string
  ev_exists :: bool
  ev_validators :: "address \<Rightarrow> bool"
  validationCount :: nat
  positiveValidations :: nat
  negativeValidations :: nat

record ValidationResult =
  vr_validator :: address
  vr_isValid :: bool
  vr_reason :: string
  vr_timestamp :: nat
  vr_level :: ValidationLevel

record IPFSMetadata =
  meta_hash :: string
  meta_size :: nat
  meta_mimeType :: string
  meta_encoding :: string
  meta_timestamp :: nat
  meta_verified :: bool

record evidenceValidator =
  evidenceCounter :: nat
  evidence :: "bytes32 \<Rightarrow> Evidence"
  validationResults :: "bytes32 \<Rightarrow> ValidationResult list"
  ipfsMetadata :: "bytes32 \<Rightarrow> IPFSMetadata"
  validatorReputation :: "address \<Rightarrow> nat"
  authorizedValidators :: "address \<Rightarrow> bool"
  knownIPFSHashes :: "string \<Rightarrow> bool"
  allEvidenceIds :: "bytes32 list"
  validatorList :: "address list"
  ev_paused :: bool
  ev_owner :: address

definition emptyEvidence :: Evidence where
  "emptyEvidence = \<lparr>evidenceId = 0, submitter = 0, ipfsHash = [], evidenceType = Screenshot,
     ev_status = EvPending, validationLevel = Basic, ev_timestamp = 0, fileSize = 0,
     mimeType = [], originalUrl = [], ev_description = [], ev_exists = False,
     ev_validators = (\<lambda>_. False), validationCount = 0, positiveValidations = 0,
     negativeValidations = 0\<rparr>"

definition emptyMetadata :: IPFSMetadata where
  "emptyMetadata = \<lparr>meta_hash = [], meta_size = 0, meta_mimeType = [], meta_encoding = [],
     meta_timestamp = 0, meta_verified = False\<rparr>"

text \<open>The state after the constructor: the owner is an authorized validator of reputation 100.\<close>

definition ev_deploy :: "address \<Rightarrow> evidenceValidator" where
  "ev_deploy deployer = \<lparr>evidenceCounter = 0, evidence = (\<lambda>_. emptyEvidence),
     validationResults = (\<lambda>_. []), ipfsMetadata = (\<lambda>_. emptyMetadata),
     validatorReputation = (\<lambda>a. if a = deployer then 100 else 0),
     authorizedValidators = (\<lambda>a. a = deployer), knownIPFSHashes = (\<lambda>_. False),
     allEvidenceIds = [], validatorList = [deployer], ev_paused = False, ev_owner = deployer\<rparr>"

text \<open>
  \<^verbatim>\<open>submitEvidence\<close> (\<^verbatim>\<open>whenNotPaused\<close>). The \<^verbatim>\<open>keccak256\<close> of the packed
  fields is the argument \<open>hash\<close>.
\<close>

definition submitEvidence ::
  "(address \<Rightarrow> string \<Rightarrow> EvidenceType \<Rightarrow> nat \<Rightarrow> nat \<Rightarrow> nat \<Rightarrow> bytes32) \<Rightarrow>
   address \<Rightarrow> nat \<Rightarrow> string \<Rightarrow> EvidenceType \<Rightarrow> nat \<Rightarrow> string \<Rightarrow> string \<Rightarrow> string \<Rightarrow>
   evidenceValidator \<Rightarrow> error + evidenceValidator" where
  "submitEvidence hash sender now ipfs eType fSize mime url descr s =
     (if ev_paused s then Inl (Revert ''EnforcedPause'')
      else if \<not> length ipfs = IPFS_HASH_LENGTH then Inl (Revert ''Invalid IPFS hash length'')
      else if \<not> fSize \<le> MAX_FILE_SIZE then Inl (Revert ''File size exceeds maximum'')
      else if \<not> fSize > 0 then Inl (Revert ''File size must be greater than 0'')
      else if \<not> length mime > 0 then Inl (Revert ''MIME type cannot be empty'')
      else if \<not> length descr > 0 then Inl (Revert ''Description cannot be empty'')
      else if knownIPFSHashes s ipfs then Inl (Revert ''IPFS hash already exists'')
      else
        let counter = evidenceCounter s + 1;
            eid = hash sender ipfs eType fSize now counter;
            newEvidence = (evidence s eid)\<lparr>evidenceId := eid, submitter := sender,
              ipfsHash := ipfs, evidenceType := eType, ev_status := EvPending,
              validationLevel := Basic, ev_timestamp := now, fileSize := fSize,
              mimeType := mime, originalUrl := url, ev_description := descr,
              ev_exists := True, validationCount := 0, positiveValidations := 0,
              negativeValidations := 0\<rparr>
        in Inr (s\<lparr>evidenceCounter := counter,
                  evidence := (evidence s)(eid := newEvidence),
                  ipfsMetadata := (ipfsMetadata s)(eid :=
                    \<lparr>meta_hash = ipfs, meta_size = fSize, meta_mimeType = mime,
                     meta_encoding = ''base58'', meta_timestamp = now, meta_verified = False\<rparr>),
                  knownIPFSHashes := (knownIPFSHashes s)(ipfs := True),
                  allEvidenceIds := allEvidenceIds s @ [eid]\<rparr>))"

text \<open>\<^verbatim>\<open>_finalizeValidation\<close>.\<close>

definition finalizeValidation :: "bytes32 \<Rightarrow> evidenceValidator \<Rightarrow> evidenceValidator" where
  "finalizeValidation eid s =
     (let ev = evidence s eid in
      if positiveValidations ev > negativeValidations ev
      then s\<lparr>evidence := (evidence s)(eid := ev\<lparr>ev_status := EvValidated\<rparr>)\<rparr>
      else s\<lparr>evidence := (evidence s)(eid := ev\<lparr>ev_status := EvRejected\<rparr>)\<rparr>)"

text \<open>
  \<^verbatim>\<open>validateEvidence\<close>, with its modifiers \<^verbatim>\<open>whenNotPaused\<close>,
  \<^verbatim>\<open>onlyAuthorizedValidator\<close>, \<^verbatim>\<open>onlyExistingEvidence\<close> and
  \<^verbatim>\<open>onlyPendingEvidence\<close>. The owner can set a reputation to any value, so the
  addition of the reward is checked.
\<close>

definition validateEvidence ::
  "address \<Rightarrow> nat \<Rightarrow> bytes32 \<Rightarrow> bool \<Rightarrow> string \<Rightarrow> ValidationLevel \<Rightarrow> evidenceValidator
     \<Rightarrow> error + evidenceValidator" where
  "validateEvidence sender now eid verdict why lvl s =
     (if ev_paused s then Inl (Revert ''EnforcedPause'')
      else if \<not> authorizedValidators s sender then Inl (Revert ''Not an authorized validator'')
      else if \<not> validatorReputation s sender \<ge> MIN_VALIDATION_REPUTATION
        then Inl (Revert ''Insufficient validator reputation'')
      else if \<not> ev_exists (evidence s eid) then Inl (Revert ''Evidence does not exist'')
      else if \<not> (ev_status (evidence s eid) = EvPending \<or> ev_status (evidence s eid) = EvUnderReview)
        then Inl (Revert ''Evidence is not pending validation'')
      else if \<not> length why > 0 then Inl (Revert ''Reason cannot be empty'')
      else if ev_validators (evidence s eid) sender
        then Inl (Revert ''Already validated this evidence'')
      else if \<not> now \<le> ev_timestamp (evidence s eid) + VALIDATION_TIMEOUT
        then Inl (Revert ''Validation timeout exceeded'')
      else if verdict \<and> \<not> validatorReputation s sender + REPUTATION_REWARD_VALIDATION < UINT256_LIMIT
        then Inl Panic
      else
        let ev = evidence s eid;
            ev1 = ev\<lparr>ev_validators := (ev_validators ev)(sender := True),
                     validationCount := validationCount ev + 1\<rparr>;
            ev2 = (if verdict then ev1\<lparr>positiveValidations := positiveValidations ev1 + 1\<rparr>
                   else ev1\<lparr>negativeValidations := negativeValidations ev1 + 1\<rparr>);
            s1 = s\<lparr>evidence := (evidence s)(eid := ev2),
                   validationResults := (validationResults s)(eid := validationResults s eid @
                     [\<lparr>vr_validator = sender, vr_isValid = verdict, vr_reason = why,
                       vr_timestamp = now, vr_level = lvl\<rparr>])\<rparr>;
            s2 = (if verdict
                  then s1\<lparr>validatorReputation := (validatorReputation s1)(sender :=
                            validatorReputation s1 sender + REPUTATION_REWARD_VALIDATION)\<rparr>
                  else s1)
        in if validationCount ev2 \<ge> MIN_VALIDATIONS_REQUIRED then Inr (finalizeValidation eid s2)
           else Inr s2)"

text \<open>\<^verbatim>\<open>authorizeValidator\<close> and \<^verbatim>\<open>emergencyUpdateEvidenceStatus\<close> (\<^verbatim>\<open>onlyOwner\<close>).\<close>

definition authorizeValidator ::
  "address \<Rightarrow> address \<Rightarrow> nat \<Rightarrow> evidenceValidator \<Rightarrow> error + evidenceValidator" where
  "authorizeValidator sender v initialReputation s =
     (if sender \<noteq> ev_owner s then Inl (Revert ''OwnableUnauthorizedAccount'')
      else if \<not> v \<noteq> 0 then Inl (Revert ''Invalid validator address'')
      else if authorizedValidators s v then Inl (Revert ''Validator already authorized'')
      else Inr (s\<lparr>authorizedValidators := (authorizedValidators s)(v := True),
                  validatorReputation := (validatorReputation s)(v := initialReputation),
                  validatorList := validatorList s @ [v]\<rparr>))"

definition emergencyUpdateEvidenceStatus ::
  "address \<Rightarrow> bytes32 \<Rightarrow> EvidenceStatus \<Rightarrow> evidenceValidator \<Rightarrow> error + evidenceValidator" where
  "emergencyUpdateEvidenceStatus sender eid newStatus s =
     (if sender \<noteq> ev_owner s then Inl (Revert ''OwnableUnauthorizedAccount'')
      else if \<not> ev_exists (evidence s eid) then Inl (Revert ''Evidence does not exist'')
      else Inr (s\<lparr>evidence := (evidence s)(eid := (evidence s eid)\<lparr>ev_status := newStatus\<rparr>)\<rparr>))"

datatype ev_call =
    SubmitEvidence address nat string EvidenceType nat string string string
  | ValidateEvidence address nat bytes32 bool string ValidationLevel
  | AuthorizeValidator address address nat
  | EmergencyUpdateEvidenceStatus address bytes32 EvidenceStatus

text \<open>A sequence of calls; \<open>hash\<close> stands for \<^verbatim>\<open>keccak256\<close>.\<close>

fun ev_exec ::
  "(address \<Rightarrow> string \<Rightarrow> EvidenceType \<Rightarrow> nat \<Rightarrow> nat \<Rightarrow> nat \<Rightarrow> bytes32) \<Rightarrow> ev_call \<Rightarrow>
   evidenceValidator \<Rightarrow> error + evidenceValidator" where
  "ev_exec hash (SubmitEvidence sender now ipfs eType fSize mime url descr) s =
     submitEvidence hash sender now ipfs eType fSize mime url descr s"
| "ev_exec hash (ValidateEvidence sender now eid verdict why lvl) s =
     validateEvidence sender now eid verdict why lvl s"
| "ev_exec hash (AuthorizeValidator sender v rep) s = authorizeValidator sender v rep s"
| "ev_exec hash (EmergencyUpdateEvidenceStatus sender eid st) s =
     emergencyUpdateEvidenceStatus sender eid st s"

fun ev_run ::
  "(address \<Rightarrow> string \<Rightarrow> EvidenceType \<Rightarrow> nat \<Rightarrow> nat \<Rightarrow> nat \<Rightarrow> bytes32) \<Rightarrow> ev_call list \<Rightarrow>
   evidenceValidator \<Rightarrow> error + evidenceValidator" where
  "ev_run hash [] s = Inr s"
| "ev_run hash (c # cs) s =
     (case ev_exec hash c s of Inl e \<Rightarrow> Inl e | Inr s' \<Rightarrow> ev_run hash cs s')"

text \<open>
  Concrete scenarios. The owner 1 authorizes the validators 31, 32 and 33 with reputation
  60, account 40 submits an evidence item, whose id is 77 under the stand-in \<open>hash77\<close> for
  \<^verbatim>\<open>keccak256\<close>, and the three validators give the verdicts negative, negative,
  positive (\<open>evRejectedState\<close>).
\<close>

definition hash77 :: "address \<Rightarrow> string \<Rightarrow> EvidenceType \<Rightarrow> nat \<Rightarrow> nat \<Rightarrow> nat \<Rightarrow> bytes32" where
  "hash77 a h t n ts c = 77"

definition evSetup :: "ev_call list" where
  "evSetup =
     [AuthorizeValidator 1 31 60, AuthorizeValidator 1 32 60, AuthorizeValidator 1 33 60,
      SubmitEvidence 40 1000 ''QmTestHash123456789012345678901234567890123456'' Screenshot
        1024 ''image/png'' ''https://example.com'' ''Screenshot of phishing site'']"

definition evBefore :: evidenceValidator where
  "evBefore = projr (ev_run hash77 evSetup (ev_deploy 1))"

definition evRejectedState :: evidenceValidator where
  "evRejectedState = projr (ev_run hash77
       [ValidateEvidence 31 2000 77 False ''looks legitimate'' Basic,
        ValidateEvidence 32 2000 77 False ''no phishing here'' Basic,
        ValidateEvidence 33 2000 77 True ''clearly phishing'' Standard] evBefore)"

text \<open>
  A tie: after the verdicts positive, positive, negative the owner sets the item back to
  \<open>EvPending\<close> (\<open>evReopened\<close>), and the owner's own verdict is negative (\<open>evTied\<close>).
\<close>

definition evReopened :: evidenceValidator where
  "evReopened = projr (ev_run hash77
       [ValidateEvidence 31 2000 77 True ''clearly phishing'' Basic,
        ValidateEvidence 32 2000 77 True ''confirmed'' Basic,
        ValidateEvidence 33 2000 77 False ''looks legitimate'' Standard,
        EmergencyUpdateEvidenceStatus 1 77 EvPending] evBefore)"

definition evTied :: evidenceValidator where
  "evTied = projr (validateEvidence 1 3000 77 False ''not convinced'' Expert evReopened)"

text \<open>
  A report with two valid and two invalid votes. No reachable state of the registry holds
  one (a quorum has three votes), so the state is written down as it is.
\<close>

definition tiedReport :: Report where
  "tiedReport = emptyReport\<lparr>rid := 1, reporter := 10, stakeAmount := REPORT_STAKE,
     votingDeadline := 1000 + VOTING_PERIOD, validVotes := 2, invalidVotes := 2,
     votes := (\<lambda>a. if a = 21 \<or> a = 22 then Valid else if a = 23 \<or> a = 24 then Invalid else NoVote),
     validatorStakes := (\<lambda>a. if a \<in> {21, 22, 23, 24} then VOTING_STAKE else 0),
     validators := [21, 22, 23, 24]\<rparr>"

definition tiedRegistry :: registry where
  "tiedRegistry = (deploy 1 (3 * 10 ^ 16) scenarioAccounts)\<lparr>reportIds := 1,
     reports := (\<lambda>i. if i = 1 then tiedReport else emptyReport)\<rparr>"

definition tiedRegistry' :: registry where
  "tiedRegistry' = projr (finalizeReport 1 tiedRegistry)"

text \<open>The first validation of the item, a positive verdict of validator 31.\<close>

definition evFirst :: evidenceValidator where
  "evFirst = projr (validateEvidence 31 2000 77 True ''clearly phishing'' Basic evBefore)"

subsection \<open>Notions used to state the conservation of staked tokens\<close>

text \<open>
  The tokens of the accounts, the amounts of the active stakes, and their sum with the
  reward pool. The stake ids in use are those up to \<open>stakeCounter\<close>.
\<close>

definition activeAmount :: "Stake \<Rightarrow> nat" where
  "activeAmount st = (if active st then amount st else 0)"

definition stakedBy :: "reputationSystem \<Rightarrow> address \<Rightarrow> nat" where
  "stakedBy s u = sum (\<lambda>i. activeAmount (userStakes s u i)) {..stakeCounter s}"

definition totalActiveStakes :: "reputationSystem \<Rightarrow> nat" where
  "totalActiveStakes s = sum (stakedBy s) UNIV"

definition tokenTotal :: "reputationSystem \<Rightarrow> nat" where
  "tokenTotal s = sum (tokenBalance s) UNIV"

definition stakingTotal :: "reputationSystem \<Rightarrow> nat" where
  "stakingTotal s = tokenTotal s + totalActiveStakes s + totalRewards (rewardPool s)"

text \<open>No stake beyond the counter is active, and no rewards are pending.\<close>

definition rs_inv :: "reputationSystem \<Rightarrow> bool" where
  "rs_inv s \<longleftrightarrow>
     (\<forall>u i. stakeCounter s < i \<longrightarrow> \<not> active (userStakes s u i)) \<and>
     (\<forall>u. pendingRewards s u = 0)"

text \<open>
  Scenario A without the deployer's deposit: \<open>stateU\<close> is the state after two valid votes
  on the only report, in a registry that holds the three stakes and nothing else.
\<close>

definition stateU :: registry where
  "stateU = projr (run (scenarioSetup @
       [VoteOnReport 21 VOTING_STAKE 2000 1 True, VoteOnReport 22 VOTING_STAKE 2000 1 True])
       (deploy 1 0 scenarioAccounts))"

section \<open>Proofs\<close>

subsection \<open>The ledger: paying in, transfers and payout loops\<close>

lemma sum_upd_add:
  fixes f :: "address \<Rightarrow> nat"
  shows "sum (f(a := f a + v)) UNIV = sum f UNIV + v"
proof -
  have 1: "sum (f(a := f a + v)) UNIV = (f(a := f a + v)) a + sum (f(a := f a + v)) (UNIV - {a})"
    by (rule sum.remove) auto
  have 2: "sum (f(a := f a + v)) (UNIV - {a}) = sum f (UNIV - {a})"
    by (rule sum.cong) auto
  have 3: "sum f UNIV = f a + sum f (UNIV - {a})"
    by (rule sum.remove) auto
  show ?thesis using 1 2 3 by simp
qed

lemma sum_upd_sub:
  fixes f :: "address \<Rightarrow> nat"
  assumes "v \<le> f a"
  shows "sum (f(a := f a - v)) UNIV + v = sum f UNIV"
proof -
  have 1: "sum (f(a := f a - v)) UNIV = (f(a := f a - v)) a + sum (f(a := f a - v)) (UNIV - {a})"
    by (rule sum.remove) auto
  have 2: "sum (f(a := f a - v)) (UNIV - {a}) = sum f (UNIV - {a})"
    by (rule sum.cong) auto
  have 3: "sum f UNIV = f a + sum f (UNIV - {a})"
    by (rule sum.remove) auto
  show ?thesis using 1 2 3 assms by simp
qed

lemma payIn_conserves:
  "payIn sender v s = Inr s' \<Longrightarrow> totalAccounts s' + balance s' = totalAccounts s + balance s"
  using sum_upd_sub[of v "accounts s" sender]
  by (auto simp: payIn_def totalAccounts_def split: if_splits)

lemma transfer_conserves:
  "transfer a v s = Inr s' \<Longrightarrow> totalAccounts s' + balance s' = totalAccounts s + balance s"
  using sum_upd_add[of "accounts s" a v]
  by (auto simp: transfer_def totalAccounts_def split: if_splits)

lemma paidTo_Nil [simp]: "paidTo amt [] a = 0"
  by (simp add: paidTo_def)

lemma paidTo_Cons [simp]:
  "paidTo amt (v # vs) a = (if v = a then amt v else 0) + paidTo amt vs a"
  by (simp add: paidTo_def)

lemma payouts_Inr:
  "payouts amt vs s = Inr s' \<Longrightarrow>
     s' = s\<lparr>balance := balance s - sum_list (map amt vs),
            accounts := (\<lambda>a. accounts s a + paidTo amt vs a)\<rparr> \<and>
     sum_list (map amt vs) \<le> balance s"
proof (induction vs arbitrary: s)
  case Nil
  then show ?case by simp
next
  case (Cons v vs)
  from Cons.prems obtain s1 where t: "transfer v (amt v) s = Inr s1"
    and p: "payouts amt vs s1 = Inr s'"
    by (auto split: sum.splits)
  from t have le: "amt v \<le> balance s"
    and s1: "s1 = s\<lparr>balance := balance s - amt v,
                     accounts := (accounts s)(v := accounts s v + amt v)\<rparr>"
    by (auto simp: transfer_def split: if_splits)
  from Cons.IH[OF p] have s': "s' = s1\<lparr>balance := balance s1 - sum_list (map amt vs),
            accounts := (\<lambda>a. accounts s1 a + paidTo amt vs a)\<rparr>"
    and le2: "sum_list (map amt vs) \<le> balance s1" by auto
  have "(\<lambda>a. accounts s1 a + paidTo amt vs a) = (\<lambda>a. accounts s a + paidTo amt (v # vs) a)"
    by (rule ext) (simp add: s1)
  with s' s1 le le2 show ?case by simp
qed

lemma payouts_ok:
  "sum_list (map amt vs) \<le> balance s \<Longrightarrow> \<exists>s'. payouts amt vs s = Inr s'"
proof (induction vs arbitrary: s)
  case Nil
  then show ?case by simp
next
  case (Cons v vs)
  then show ?case by (simp add: transfer_def)
qed

lemma transfer_reports:
  "transfer a v s = Inr s' \<Longrightarrow> reports s' = reports s"
  by (auto simp: transfer_def split: if_splits)

lemma distributeValidatorRewards_loop_payouts:
  "distributeValidatorRewards_loop i vs s = payouts (validatedPay (reports s i)) vs s"
proof (induction vs arbitrary: s)
  case Nil
  show ?case by simp
next
  case (Cons v vs)
  have step: "(if votes (reports s i) v = Valid
        then transfer v (validatorStakes (reports s i) v + VALIDATOR_REWARD) s
        else transfer v (validatorStakes (reports s i) v) s)
      = transfer v (validatedPay (reports s i) v) s"
    by (simp add: validatedPay_def)
  have rest: "transfer v (validatedPay (reports s i) v) s = Inr s1 \<Longrightarrow>
        distributeValidatorRewards_loop i vs s1 = payouts (validatedPay (reports s i)) vs s1" for s1
    using Cons.IH[of s1] by (simp add: transfer_reports)
  show ?case
    by (simp only: distributeValidatorRewards_loop.simps payouts.simps Let_def step)
       (simp add: rest split: sum.splits)
qed

lemma redistributeStake_loop_payouts:
  "redistributeStake_loop i share vs s = payouts (rejectedPay (reports s i) share) vs s"
proof (induction vs arbitrary: s)
  case Nil
  show ?case by simp
next
  case (Cons v vs)
  have step: "(if votes (reports s i) v = Invalid
        then transfer v (validatorStakes (reports s i) v + share) s
        else transfer v (validatorStakes (reports s i) v) s)
      = transfer v (rejectedPay (reports s i) share v) s"
    by (simp add: rejectedPay_def)
  have rest: "transfer v (rejectedPay (reports s i) share v) s = Inr s1 \<Longrightarrow>
        redistributeStake_loop i share vs s1 = payouts (rejectedPay (reports s i) share) vs s1" for s1
    using Cons.IH[of s1] by (simp add: transfer_reports)
  show ?case
    by (simp only: redistributeStake_loop.simps payouts.simps Let_def step)
       (simp add: rest split: sum.splits)
qed

lemma countCorrectValidators_filter:
  "countCorrectValidators r vs = length (filter (\<lambda>v. votes r v = Invalid) vs)"
  by (induction vs) auto

lemma validatorExists_set: "validatorExists vs a = (a \<in> set vs)"
  by (induction vs) auto

lemma updateValidatorReputation_loop_shape:
  "\<exists>m. updateValidatorReputation_loop i vs s = s\<lparr>validators_map := m\<rparr>"
proof (induction vs arbitrary: s)
  case Nil
  have "s = s\<lparr>validators_map := validators_map s\<rparr>" by simp
  then show ?case by (metis updateValidatorReputation_loop.simps(1))
next
  case (Cons v vs)
  obtain s1 m1 where s1: "updateValidatorReputation_loop i (v # vs) s = updateValidatorReputation_loop i vs s1"
    and m1: "s1 = s\<lparr>validators_map := m1\<rparr>"
    by (simp add: Let_def)
  from Cons.IH[of s1] obtain m where "updateValidatorReputation_loop i vs s1 = s1\<lparr>validators_map := m\<rparr>"
    by blast
  with s1 m1 have "updateValidatorReputation_loop i (v # vs) s = s\<lparr>validators_map := m\<rparr>"
    by simp
  then show ?case by blast
qed

lemma updateValidatorReputation_frame:
  "updateValidatorReputation i s = s\<lparr>validators_map := validators_map (updateValidatorReputation i s)\<rparr>"
proof -
  obtain m where m: "updateValidatorReputation i s = s\<lparr>validators_map := m\<rparr>"
    unfolding updateValidatorReputation_def using updateValidatorReputation_loop_shape by blast
  then have "validators_map (updateValidatorReputation i s) = m" by simp
  with m show ?thesis by simp
qed

lemma validatedPay_status [simp]: "validatedPay (r\<lparr>status := st\<rparr>) = validatedPay r"
  by (simp add: validatedPay_def fun_eq_iff)

lemma rejectedPay_status [simp]: "rejectedPay (r\<lparr>status := st\<rparr>) = rejectedPay r"
  by (simp add: rejectedPay_def fun_eq_iff)

lemma finalizeReport_validated:
  assumes fin: "finalizeReport i s = Inr s'"
    and maj: "validVotes (reports s i) > invalidVotes (reports s i)"
  defines "r \<equiv> reports s i"
  shows "s' = s\<lparr>reports := (reports s)(i := r\<lparr>status := Validated\<rparr>),
              balance := balance s - (stakeAmount r + REPORTER_REWARD)
                           - sum_list (map (validatedPay r) (validators r)),
              accounts := (\<lambda>a. accounts s a
                           + (if a = reporter r then stakeAmount r + REPORTER_REWARD else 0)
                           + paidTo (validatedPay r) (validators r) a),
              validators_map := validators_map s'\<rparr>"
    and "stakeAmount r + REPORTER_REWARD + sum_list (map (validatedPay r) (validators r)) \<le> balance s"
    and "MIN_VALIDATORS \<le> length (validators r)"
proof -
  let ?s0 = "setStatus i Validated s"
  from fin maj show len: "MIN_VALIDATORS \<le> length (validators r)"
    by (auto simp: finalizeReport_def Let_def r_def split: if_splits)
  from fin maj len obtain s1 s2 where
    t: "transfer (reporter r) (stakeAmount r + REPORTER_REWARD) ?s0 = Inr s1" and
    d: "distributeValidatorRewards i s1 = Inr s2" and
    u: "s' = updateValidatorReputation i s2"
    by (auto simp: finalizeReport_def Let_def r_def split: if_splits sum.splits)
  from t have le1: "stakeAmount r + REPORTER_REWARD \<le> balance s"
    and s1: "s1 = s\<lparr>reports := (reports s)(i := r\<lparr>status := Validated\<rparr>),
                    balance := balance s - (stakeAmount r + REPORTER_REWARD),
                    accounts := (accounts s)(reporter r :=
                       accounts s (reporter r) + (stakeAmount r + REPORTER_REWARD))\<rparr>"
    by (auto simp: transfer_def setStatus_def r_def split: if_splits)
  have r1: "reports s1 i = r\<lparr>status := Validated\<rparr>" by (simp add: s1)
  from d have p: "payouts (validatedPay r) (validators r) s1 = Inr s2"
    by (simp add: distributeValidatorRewards_def distributeValidatorRewards_loop_payouts r1)
  from payouts_Inr[OF p] have
    s2: "s2 = s1\<lparr>balance := balance s1 - sum_list (map (validatedPay r) (validators r)),
                   accounts := (\<lambda>a. accounts s1 a + paidTo (validatedPay r) (validators r) a)\<rparr>"
    and le2: "sum_list (map (validatedPay r) (validators r)) \<le> balance s1" by auto
  from le1 le2 show "stakeAmount r + REPORTER_REWARD + sum_list (map (validatedPay r) (validators r)) \<le> balance s"
    by (simp add: s1)
  have acc: "(\<lambda>a. accounts s1 a + paidTo (validatedPay r) (validators r) a) =
     (\<lambda>a. accounts s a + (if a = reporter r then stakeAmount r + REPORTER_REWARD else 0)
             + paidTo (validatedPay r) (validators r) a)"
    by (rule ext) (simp add: s1)
  have "s' = s2\<lparr>validators_map := validators_map s'\<rparr>"
    using updateValidatorReputation_frame[of i s2] u by simp
  then show "s' = s\<lparr>reports := (reports s)(i := r\<lparr>status := Validated\<rparr>),
              balance := balance s - (stakeAmount r + REPORTER_REWARD)
                           - sum_list (map (validatedPay r) (validators r)),
              accounts := (\<lambda>a. accounts s a
                           + (if a = reporter r then stakeAmount r + REPORTER_REWARD else 0)
                           + paidTo (validatedPay r) (validators r) a),
              validators_map := validators_map s'\<rparr>"
    unfolding s2 acc by (simp add: s1)
qed

lemma finalizeReport_rejected:
  assumes fin: "finalizeReport i s = Inr s'"
    and maj: "\<not> validVotes (reports s i) > invalidVotes (reports s i)"
    and pos: "0 < countCorrectValidators (reports s i) (validators (reports s i))"
  defines "r \<equiv> reports s i"
  defines "share \<equiv> stakeAmount r div countCorrectValidators r (validators r)"
  shows "s' = s\<lparr>reports := (reports s)(i := r\<lparr>status := Rejected\<rparr>),
              balance := balance s - sum_list (map (rejectedPay r share) (validators r)),
              accounts := (\<lambda>a. accounts s a + paidTo (rejectedPay r share) (validators r) a),
              validators_map := validators_map s'\<rparr>"
    and "sum_list (map (rejectedPay r share) (validators r)) \<le> balance s"
    and "MIN_VALIDATORS \<le> length (validators r)"
proof -
  let ?s0 = "setStatus i Rejected s"
  from fin maj show len: "MIN_VALIDATORS \<le> length (validators r)"
    by (auto simp: finalizeReport_def Let_def r_def split: if_splits)
  have r0: "reports ?s0 i = r\<lparr>status := Rejected\<rparr>" by (simp add: setStatus_def r_def)
  from fin maj len obtain s1 where
    d: "redistributeStake i ?s0 = Inr s1" and
    u: "s' = updateValidatorReputation i s1"
    by (auto simp: finalizeReport_def Let_def r_def split: if_splits sum.splits)
  have cnt: "countCorrectValidators (r\<lparr>status := Rejected\<rparr>) vs = countCorrectValidators r vs" for vs
    by (simp add: countCorrectValidators_filter)
  from d pos have p: "payouts (rejectedPay r share) (validators r) ?s0 = Inr s1"
    by (simp add: redistributeStake_def redistributeStake_loop_payouts r0 cnt Let_def share_def r_def[symmetric])
  from payouts_Inr[OF p] have
    s1: "s1 = ?s0\<lparr>balance := balance ?s0 - sum_list (map (rejectedPay r share) (validators r)),
                   accounts := (\<lambda>a. accounts ?s0 a + paidTo (rejectedPay r share) (validators r) a)\<rparr>"
    and le2: "sum_list (map (rejectedPay r share) (validators r)) \<le> balance ?s0" by auto
  from le2 show "sum_list (map (rejectedPay r share) (validators r)) \<le> balance s"
    by (simp add: setStatus_def)
  have "s' = s1\<lparr>validators_map := validators_map s'\<rparr>"
    using updateValidatorReputation_frame[of i s1] u by simp
  then show "s' = s\<lparr>reports := (reports s)(i := r\<lparr>status := Rejected\<rparr>),
              balance := balance s - sum_list (map (rejectedPay r share) (validators r)),
              accounts := (\<lambda>a. accounts s a + paidTo (rejectedPay r share) (validators r) a),
              validators_map := validators_map s'\<rparr>"
    unfolding s1 by (simp add: setStatus_def r_def)
qed

lemma finalizeReport_reports:
  assumes fin: "finalizeReport i s = Inr s'"
  shows "reports s' = (reports s)(i := (reports s i)\<lparr>status :=
            (if validVotes (reports s i) > invalidVotes (reports s i) then Validated else Rejected)\<rparr>)"
    and "reportIds s' = reportIds s"
    and "MIN_VALIDATORS \<le> length (validators (reports s i))"
proof -
  let ?r = "reports s i"
  let ?goal = "reports s' = (reports s)(i := ?r\<lparr>status :=
            (if validVotes ?r > invalidVotes ?r then Validated else Rejected)\<rparr>)
            \<and> reportIds s' = reportIds s \<and> MIN_VALIDATORS \<le> length (validators ?r)"
  have ?goal
  proof (cases "validVotes ?r > invalidVotes ?r")
    case True
    note v = finalizeReport_validated[OF fin True]
    have "reports s' = (reports s)(i := ?r\<lparr>status := Validated\<rparr>)"
      by (subst v(1)) simp
    moreover have "reportIds s' = reportIds s"
      by (subst v(1)) simp
    ultimately show ?thesis using True v(3) by simp
  next
    case False
    show ?thesis
    proof (cases "0 < countCorrectValidators ?r (validators ?r)")
      case True
      note v = finalizeReport_rejected[OF fin False True]
      have "reports s' = (reports s)(i := ?r\<lparr>status := Rejected\<rparr>)"
        by (subst v(1)) simp
      moreover have "reportIds s' = reportIds s"
        by (subst v(1)) simp
      ultimately show ?thesis using False v(3) by simp
    next
      case zero: False
      have cnt: "countCorrectValidators (?r\<lparr>status := Rejected\<rparr>) (validators ?r) = 0"
        using zero by (simp add: countCorrectValidators_filter)
      from fin False have len: "MIN_VALIDATORS \<le> length (validators ?r)"
        and s': "s' = updateValidatorReputation i (setStatus i Rejected s)"
        by (auto simp: finalizeReport_def redistributeStake_def setStatus_def cnt Let_def
                 split: if_splits)
      have "s' = (setStatus i Rejected s)\<lparr>validators_map := validators_map s'\<rparr>"
        using updateValidatorReputation_frame[of i "setStatus i Rejected s"] s' by simp
      then have "reports s' = reports (setStatus i Rejected s)"
        and "reportIds s' = reportIds (setStatus i Rejected s)"
        by (metis registry.select_convs(3) registry.surjective registry.update_convs(4),
            metis registry.select_convs(1) registry.surjective registry.update_convs(4))
      then show ?thesis using False len by (simp add: setStatus_def)
    qed
  qed
  then show "reports s' = (reports s)(i := (reports s i)\<lparr>status :=
            (if validVotes (reports s i) > invalidVotes (reports s i) then Validated else Rejected)\<rparr>)"
    and "reportIds s' = reportIds s"
    and "MIN_VALIDATORS \<le> length (validators (reports s i))" by auto
qed

lemma voteOnReport_eq:
  "voteOnReport sender v now i isValid s =
     (if accounts s sender < v then Inl OutOfFunds
      else if \<not> isActive (validators_map s sender) then Inl (Revert ''Not an active validator'')
      else if \<not> i \<le> reportIds s then Inl (Revert ''Report does not exist'')
      else if \<not> now \<le> votingDeadline (reports s i) then Inl (Revert ''Voting period closed'')
      else if \<not> status (reports s i) = Pending then Inl (Revert ''Report not pending'')
      else if v \<noteq> VOTING_STAKE then Inl (Revert ''Incorrect voting stake amount'')
      else if votes (reports s i) sender \<noteq> NoVote then Inl (Revert ''Already voted'')
      else if length (validators (reports (recordedVote sender i isValid s) i)) \<ge> MIN_VALIDATORS
           then finalizeReport i (recordedVote sender i isValid s)
      else Inr (recordedVote sender i isValid s))"
  by (simp add: voteOnReport_def payIn_def recordedVote_def Let_def validatorExists_set)

subsection \<open>The invariant holds in every reachable state\<close>

lemma report_inv_emptyReport: "report_inv emptyReport"
  by (simp add: report_inv_def emptyReport_def MIN_VALIDATORS_def)

lemma registry_inv_deploy: "registry_inv (deploy d funds acct)"
  by (simp add: registry_inv_def deploy_def report_inv_emptyReport)

lemma registry_inv_ledger:
  "registry_inv (s\<lparr>balance := b, accounts := acc\<rparr>) = registry_inv s"
  by (simp add: registry_inv_def)

lemma registry_inv_payIn: "payIn sender v s = Inr s' \<Longrightarrow> registry_inv s \<Longrightarrow> registry_inv s'"
  by (auto simp: payIn_def registry_inv_def split: if_splits)

lemma registry_inv_transfer: "transfer a v s = Inr s' \<Longrightarrow> registry_inv s \<Longrightarrow> registry_inv s'"
  by (auto simp: transfer_def registry_inv_def split: if_splits)

lemma registry_inv_registerValidator:
  "registerValidator sender now s = Inr s' \<Longrightarrow> registry_inv s \<Longrightarrow> registry_inv s'"
  by (auto simp: registerValidator_def registry_inv_def Let_def split: if_splits)

lemma registry_inv_submitReportWithStake:
  assumes "submitReportWithStake sender v now rType tValue descr rHash s = Inr s'"
    and inv: "registry_inv s"
  shows "registry_inv s'"
proof -
  let ?n = "reportIds s + 1"
  let ?new = "emptyReport\<lparr>rid := ?n, reportType := rType,
              targetValue := tValue, description := descr, reportHash := rHash,
              reporter := sender, stakeAmount := v, timestamp := now,
              votingDeadline := now + VOTING_PERIOD, status := Pending,
              validVotes := 0, invalidVotes := 0\<rparr>"
  from inv have fresh: "reports s (Suc (reportIds s)) = emptyReport" by (simp add: registry_inv_def)
  from assms(1) have r: "reports s' = (reports s)(?n := ?new)" and n: "reportIds s' = ?n"
    by (auto simp: submitReportWithStake_def payIn_def Let_def fresh split: if_splits)
  have "report_inv ?new"
    by (simp add: report_inv_def emptyReport_def MIN_VALIDATORS_def)
  with inv show ?thesis
    by (auto simp: registry_inv_def r n)
qed

lemma recordedVote_report:
  fixes isValid :: bool
  assumes inv: "report_inv (reports s i)"
    and pend: "status (reports s i) = Pending"
    and fresh: "votes (reports s i) sender = NoVote"
  defines "r' \<equiv> reports (recordedVote sender i isValid s) i"
  shows "validators r' = validators (reports s i) @ [sender]"
    and "length (validators r') < MIN_VALIDATORS \<Longrightarrow> report_inv r'"
    and "st \<noteq> Pending \<Longrightarrow> st \<noteq> Expired \<Longrightarrow> length (validators r') \<ge> MIN_VALIDATORS
           \<Longrightarrow> report_inv (r'\<lparr>status := st\<rparr>)"
    and "status r' = Pending"
proof -
  let ?r = "reports s i"
  from inv fresh have notin: "sender \<notin> set (validators ?r)"
    by (auto simp: report_inv_def)
  then show vs: "validators r' = validators ?r @ [sender]"
    by (simp add: r'_def recordedVote_def Let_def)
  have votes': "votes r' = (votes ?r)(sender := (if isValid then Valid else Invalid))"
    and stakes': "validatorStakes r' = (validatorStakes ?r)(sender := VOTING_STAKE)"
    and vv: "validVotes r' = (if isValid then validVotes ?r + 1 else validVotes ?r)"
    and iv: "invalidVotes r' = (if isValid then invalidVotes ?r else invalidVotes ?r + 1)"
    and st': "status r' = status ?r"
    by (simp_all add: r'_def recordedVote_def Let_def)
  show "status r' = Pending" using st' pend by simp
  have f1: "filter (\<lambda>v. votes r' v = y) (validators ?r)
          = filter (\<lambda>v. votes ?r v = y) (validators ?r)" for y
    unfolding votes' using notin by (intro filter_cong) auto
  have fs: "votes r' sender = (if isValid then Valid else Invalid)" by (simp add: votes')
  have d: "distinct (validators r')" using inv notin by (simp add: vs report_inv_def)
  have m: "\<forall>a. (a \<in> set (validators r')) = (votes r' a \<noteq> NoVote)"
    using inv by (auto simp: vs votes' report_inv_def)
  have "filter (\<lambda>v. votes r' v = Valid) (validators r')
      = filter (\<lambda>v. votes ?r v = Valid) (validators ?r) @ (if isValid then [sender] else [])"
    unfolding vs filter_append f1 by (simp add: fs)
  then have c1: "validVotes r' = length (filter (\<lambda>v. votes r' v = Valid) (validators r'))"
    using inv by (simp add: vv report_inv_def)
  have "filter (\<lambda>v. votes r' v = Invalid) (validators r')
      = filter (\<lambda>v. votes ?r v = Invalid) (validators ?r) @ (if isValid then [] else [sender])"
    unfolding vs filter_append f1 by (simp add: fs)
  then have c2: "invalidVotes r' = length (filter (\<lambda>v. votes r' v = Invalid) (validators r'))"
    using inv by (simp add: iv report_inv_def)
  have k: "\<forall>a. a \<in> set (validators r') \<longrightarrow> validatorStakes r' a = VOTING_STAKE"
    using inv by (auto simp: vs stakes' report_inv_def)
  have l: "length (validators r') \<le> MIN_VALIDATORS"
    using inv pend by (simp add: vs report_inv_def)
  show "length (validators r') < MIN_VALIDATORS \<Longrightarrow> report_inv r'"
    using d m c1 c2 k l st' pend by (simp add: report_inv_def)
  show "st \<noteq> Pending \<Longrightarrow> st \<noteq> Expired \<Longrightarrow> length (validators r') \<ge> MIN_VALIDATORS
           \<Longrightarrow> report_inv (r'\<lparr>status := st\<rparr>)"
    using d m c1 c2 k l by (simp add: report_inv_def)
qed

lemma recordedVote_other:
  "j \<noteq> i \<Longrightarrow> reports (recordedVote sender i isValid s) j = reports s j"
  "reportIds (recordedVote sender i isValid s) = reportIds s"
  by (simp_all add: recordedVote_def Let_def)

lemma registry_inv_voteOnReport:
  assumes vote: "voteOnReport sender v now i isValid s = Inr s'"
    and inv: "registry_inv s"
  shows "registry_inv s'"
proof -
  let ?s1 = "recordedVote sender i isValid s"
  let ?r' = "reports ?s1 i"
  from vote have g: "i \<le> reportIds s" "status (reports s i) = Pending"
    "votes (reports s i) sender = NoVote"
    by (auto simp: voteOnReport_eq split: if_splits)
  from inv have ri: "report_inv (reports s i)" by (simp add: registry_inv_def)
  note rv = recordedVote_report[OF ri g(2) g(3), where isValid = isValid]
  show ?thesis
  proof (cases "length (validators ?r') \<ge> MIN_VALIDATORS")
    case True
    with vote have fin: "finalizeReport i ?s1 = Inr s'"
      by (auto simp: voteOnReport_eq split: if_splits)
    note fr = finalizeReport_reports[OF fin]
    have "report_inv (reports s' i)"
      using rv(3)[OF _ _ True] by (simp add: fr(1))
    moreover have "reports s' j = reports s j" if "j \<noteq> i" for j
      using that by (simp add: fr(1) recordedVote_other)
    moreover have "reportIds s' = reportIds s" by (simp add: fr(2) recordedVote_other)
    ultimately show ?thesis using inv g(1)
      unfolding registry_inv_def by (metis not_le)
  next
    case False
    with vote have s': "s' = ?s1"
      by (auto simp: voteOnReport_eq split: if_splits)
    have "report_inv (reports s' i)" using rv(2) False by (simp add: s')
    moreover have "reports s' j = reports s j" if "j \<noteq> i" for j
      using that by (simp add: s' recordedVote_other)
    moreover have "reportIds s' = reportIds s" by (simp add: s' recordedVote_other)
    ultimately show ?thesis using inv g(1)
      unfolding registry_inv_def by (metis not_le)
  qed
qed

lemma registry_inv_exec: "exec c s = Inr s' \<Longrightarrow> registry_inv s \<Longrightarrow> registry_inv s'"
proof (cases c)
  case (RegisterValidator a n)
  then show "exec c s = Inr s' \<Longrightarrow> registry_inv s \<Longrightarrow> registry_inv s'"
    by (simp add: registry_inv_registerValidator)
next
  case (SubmitReportWithStake a v n t1 t2 t3 t4)
  then show "exec c s = Inr s' \<Longrightarrow> registry_inv s \<Longrightarrow> registry_inv s'"
    by (simp add: registry_inv_submitReportWithStake)
next
  case (VoteOnReport a v n i b)
  then show "exec c s = Inr s' \<Longrightarrow> registry_inv s \<Longrightarrow> registry_inv s'"
    by (simp add: registry_inv_voteOnReport)
next
  case (EmergencyWithdraw a)
  then show "exec c s = Inr s' \<Longrightarrow> registry_inv s \<Longrightarrow> registry_inv s'"
    by (auto simp: emergencyWithdraw_def registry_inv_transfer split: if_splits)
next
  case (ReceiveEther a v)
  then show "exec c s = Inr s' \<Longrightarrow> registry_inv s \<Longrightarrow> registry_inv s'"
    by (auto simp: receiveEther_def registry_inv_payIn)
qed

lemma reachable_registry_inv: "reachable s \<Longrightarrow> registry_inv s"
  by (induction rule: reachable.induct) (auto simp: registry_inv_deploy registry_inv_exec)

lemma reachable_run: "reachable s \<Longrightarrow> run cs s = Inr s' \<Longrightarrow> reachable s'"
proof (induction cs arbitrary: s)
  case Nil
  then show ?case by simp
next
  case (Cons c cs)
  then show ?case
    by (auto split: sum.splits intro: reachable_exec)
qed

lemmas scenario_defs = scenarioB_def scenarioSetup_def scenarioAccounts_def deploy_def
  registerValidator_def submitReportWithStake_def voteOnReport_def finalizeReport_def
  redistributeStake_def distributeValidatorRewards_def updateValidatorReputation_def
  setStatus_def payIn_def transfer_def receiveEther_def emergencyWithdraw_def
  emptyReport_def emptyValidator_def
  REPORT_STAKE_def VOTING_STAKE_def VALIDATOR_REWARD_def REPORTER_REWARD_def
  MIN_VALIDATORS_def VOTING_PERIOD_def Let_def numeral_2_eq_2[symmetric] numeral_3_eq_3[symmetric]

lemma stateB_run: "run scenarioB (deploy 1 0 scenarioAccounts) = Inr stateB"
  unfolding stateB_def by (simp add: scenario_defs)

lemma stateB_report:
  "validators (reports stateB 1) = [21, 22, 23]"
  "status (reports stateB 1) = Rejected"
  unfolding stateB_def by (simp_all add: scenario_defs)

subsection \<open>C10: a report never has more than \<open>MIN_VALIDATORS\<close> validators\<close>

text \<open>
  Claim C10. In every reachable state the validator list of a report has at most
  \<open>MIN_VALIDATORS = 3\<close> entries, all distinct, so the declared \<open>MAX_VALIDATORS = 5\<close> is never
  attained: a report whose list has \<open>MIN_VALIDATORS\<close> entries was finalized by the call
  that added the last one (its status is no longer \<open>Pending\<close>), and every later vote on
  it reverts.
\<close>

theorem quorum_size_bound:
  assumes "reachable s"
  shows "length (validators (reports s i)) \<le> MIN_VALIDATORS \<and> MIN_VALIDATORS = 3 \<and>
         length (validators (reports s i)) < MAX_VALIDATORS \<and>
         distinct (validators (reports s i)) \<and>
         (length (validators (reports s i)) = MIN_VALIDATORS \<longrightarrow>
            status (reports s i) \<noteq> Pending \<and>
            (\<forall>sender v now isValid. \<exists>e. voteOnReport sender v now i isValid s = Inl e))"
proof -
  from assms have "report_inv (reports s i)"
    using reachable_registry_inv by (simp add: registry_inv_def)
  then have len: "length (validators (reports s i)) \<le> MIN_VALIDATORS"
    and dist: "distinct (validators (reports s i))"
    and st: "(status (reports s i) = Pending) = (length (validators (reports s i)) < MIN_VALIDATORS)"
    by (simp_all add: report_inv_def)
  have closed: "\<exists>e. voteOnReport sender v now i isValid s = Inl e"
    if "status (reports s i) \<noteq> Pending" for sender v now isValid
    using that by (simp add: voteOnReport_eq)
  from len dist st closed show ?thesis
    by (simp add: MIN_VALIDATORS_def MAX_VALIDATORS_def)
qed

theorem quorum_size_bound_witness:
  "reachable stateB \<and> length (validators (reports stateB 1)) = MIN_VALIDATORS \<and>
   length (validators (reports stateB 1)) < MAX_VALIDATORS \<and>
   status (reports stateB 1) \<noteq> Pending \<and>
   (\<exists>e. voteOnReport 24 VOTING_STAKE 3000 1 True stateB = Inl e)"
proof -
  have r: "reachable stateB"
    using reachable_run[OF reachable_deploy stateB_run] .
  have l: "length (validators (reports stateB 1)) = MIN_VALIDATORS"
    using stateB_report(1) by (simp add: MIN_VALIDATORS_def)
  from quorum_size_bound[OF r, of 1] l show ?thesis using r by simp
qed

subsection \<open>C2 and C3: what a finalizing vote pays\<close>

lemma paidTo_distinct:
  "distinct vs \<Longrightarrow> paidTo amt vs a = (if a \<in> set vs then amt a else 0)"
  by (induction vs) auto

lemma votes_partition:
  "\<forall>a. a \<in> set vs \<longrightarrow> votes r a \<noteq> NoVote \<Longrightarrow>
     length (filter (\<lambda>v. votes r v = Valid) vs) + length (filter (\<lambda>v. votes r v = Invalid) vs)
       = length vs"
proof (induction vs)
  case Nil
  show ?case by simp
next
  case (Cons v vs)
  then have "votes r v = Valid \<or> votes r v = Invalid"
    by (cases "votes r v") auto
  with Cons show ?case by auto
qed

text \<open>
  A vote that succeeds and leaves a quorum behind went through \<^verbatim>\<open>_finalizeReport\<close>, on a
  report that satisfies every part of the invariant but the one about its status.
\<close>

lemma finalizing_vote:
  assumes reach: "reachable s"
    and vote: "voteOnReport sender v now i isValid s = Inr s'"
    and quorum: "MIN_VALIDATORS \<le> length (validators (reports s' i))"
  defines "s1 \<equiv> recordedVote sender i isValid s"
  shows "finalizeReport i s1 = Inr s'"
    and "accounts s1 a = accounts s a - (if a = sender then VOTING_STAKE else 0)"
    and "distinct (validators (reports s1 i))"
    and "(a \<in> set (validators (reports s1 i))) = (votes (reports s1 i) a \<noteq> NoVote)"
    and "a \<in> set (validators (reports s1 i)) \<Longrightarrow> validatorStakes (reports s1 i) a = VOTING_STAKE"
    and "countCorrectValidators (reports s1 i) (validators (reports s1 i)) = invalidVotes (reports s1 i)"
    and "validVotes (reports s1 i) + invalidVotes (reports s1 i) = length (validators (reports s1 i))"
proof -
  from vote have g: "status (reports s i) = Pending" "votes (reports s i) sender = NoVote"
    by (auto simp: voteOnReport_eq split: if_splits)
  from reach have ri: "report_inv (reports s i)"
    using reachable_registry_inv by (simp add: registry_inv_def)
  note rv = recordedVote_report[OF ri g, where isValid = isValid, folded s1_def]
  have q1: "MIN_VALIDATORS \<le> length (validators (reports s1 i))"
  proof (rule ccontr)
    assume "\<not> MIN_VALIDATORS \<le> length (validators (reports s1 i))"
    with vote have "s' = s1" by (auto simp: voteOnReport_eq s1_def split: if_splits)
    with quorum \<open>\<not> MIN_VALIDATORS \<le> length (validators (reports s1 i))\<close> show False by simp
  qed
  with vote show "finalizeReport i s1 = Inr s'"
    by (auto simp: voteOnReport_eq s1_def split: if_splits)
  show "accounts s1 a = accounts s a - (if a = sender then VOTING_STAKE else 0)"
    by (simp add: s1_def recordedVote_def Let_def)
  have inv': "report_inv ((reports s1 i)\<lparr>status := Validated\<rparr>)"
    using rv(3)[of Validated] q1 by simp
  then show "distinct (validators (reports s1 i))"
    and m: "(a \<in> set (validators (reports s1 i))) = (votes (reports s1 i) a \<noteq> NoVote)"
    and "a \<in> set (validators (reports s1 i)) \<Longrightarrow> validatorStakes (reports s1 i) a = VOTING_STAKE"
    by (simp_all add: report_inv_def)
  from inv' show c: "countCorrectValidators (reports s1 i) (validators (reports s1 i)) = invalidVotes (reports s1 i)"
    by (simp add: report_inv_def countCorrectValidators_filter)
  from inv' have "\<forall>a. a \<in> set (validators (reports s1 i)) \<longrightarrow> votes (reports s1 i) a \<noteq> NoVote"
    by (simp add: report_inv_def)
  from votes_partition[OF this] inv'
  show "validVotes (reports s1 i) + invalidVotes (reports s1 i) = length (validators (reports s1 i))"
    by (simp add: report_inv_def)
qed

text \<open>
  Claim C2. When a vote brings a report to its quorum with more valid than invalid votes and
  the call succeeds, the report is \<open>Validated\<close>; the submitter is paid the report stake plus
  \<open>REPORTER_REWARD\<close>, every validator who voted valid is paid the voting stake plus
  \<open>VALIDATOR_REWARD\<close>, and every validator who voted invalid is paid the voting stake and
  nothing more. (The voter of the call has paid its own voting stake in.)
\<close>

theorem validated_settlement:
  assumes "reachable s"
    and "voteOnReport sender v now i isValid s = Inr s'"
    and "MIN_VALIDATORS \<le> length (validators (reports s' i))"
    and "validVotes (reports s' i) > invalidVotes (reports s' i)"
  shows "status (reports s' i) = Validated \<and>
         accounts s' a =
           accounts s a - (if a = sender then VOTING_STAKE else 0)
           + (if a = reporter (reports s' i) then stakeAmount (reports s' i) + REPORTER_REWARD else 0)
           + (if votes (reports s' i) a = Valid then VOTING_STAKE + VALIDATOR_REWARD
              else if votes (reports s' i) a = Invalid then VOTING_STAKE else 0)"
proof -
  let ?s1 = "recordedVote sender i isValid s"
  let ?r = "reports ?s1 i"
  note fv = finalizing_vote[OF assms(1-3)]
  note fr = finalizeReport_reports[OF fv(1)]
  have r': "reports s' i = ?r\<lparr>status :=
      (if validVotes ?r > invalidVotes ?r then Validated else Rejected)\<rparr>"
    by (simp add: fr(1))
  from assms(4) have maj: "validVotes ?r > invalidVotes ?r"
    by (simp add: r')
  then have st: "status (reports s' i) = Validated" by (simp add: r')
  note v = finalizeReport_validated[OF fv(1) maj]
  have "accounts s' a = accounts ?s1 a
           + (if a = reporter ?r then stakeAmount ?r + REPORTER_REWARD else 0)
           + paidTo (validatedPay ?r) (validators ?r) a"
    by (subst v(1)) simp
  moreover have "paidTo (validatedPay ?r) (validators ?r) a =
      (if votes ?r a = Valid then VOTING_STAKE + VALIDATOR_REWARD
       else if votes ?r a = Invalid then VOTING_STAKE else 0)"
    using fv(4,5) by (cases "votes ?r a") (auto simp: paidTo_distinct[OF fv(3)] validatedPay_def)
  ultimately show ?thesis
    using st maj by (simp add: fv(2) r')
qed

lemma stateA_run: "run scenarioA (deploy 1 0 scenarioAccounts) = Inr stateA"
  unfolding stateA_def by (simp add: scenarioA_def scenario_defs)

lemma stateA'_vote: "voteOnReport 23 VOTING_STAKE 2000 1 False stateA = Inr stateA'"
  unfolding stateA'_def stateA_def by (simp add: scenarioA_def scenario_defs)

lemma stateA'_report:
  "validators (reports stateA' 1) = [21, 22, 23]"
  "validVotes (reports stateA' 1) = 2"
  "invalidVotes (reports stateA' 1) = 1"
  "reporter (reports stateA' 1) = 10"
  "stakeAmount (reports stateA' 1) = REPORT_STAKE"
  "votes (reports stateA' 1) 10 = NoVote"
  "votes (reports stateA' 1) 21 = Valid"
  "votes (reports stateA' 1) 23 = Invalid"
  unfolding stateA'_def stateA_def by (simp_all add: scenarioA_def scenario_defs)

theorem validated_settlement_witness:
  "reachable stateA \<and> voteOnReport 23 VOTING_STAKE 2000 1 False stateA = Inr stateA' \<and>
   status (reports stateA' 1) = Validated \<and>
   accounts stateA' 10 = accounts stateA 10 + REPORT_STAKE + REPORTER_REWARD \<and>
   accounts stateA' 21 = accounts stateA 21 + VOTING_STAKE + VALIDATOR_REWARD \<and>
   accounts stateA' 23 = accounts stateA 23 - VOTING_STAKE + VOTING_STAKE"
proof -
  have r: "reachable stateA"
    using reachable_run[OF reachable_deploy stateA_run] .
  have q: "MIN_VALIDATORS \<le> length (validators (reports stateA' 1))"
    using stateA'_report(1) by (simp add: MIN_VALIDATORS_def)
  have m: "validVotes (reports stateA' 1) > invalidVotes (reports stateA' 1)"
    using stateA'_report(2,3) by simp
  note t = validated_settlement[OF r stateA'_vote q m]
  from t[of 10] t[of 21] t[of 23] r stateA'_vote stateA'_report show ?thesis
    by simp
qed

text \<open>
  The rewards of a validated report need funds that its own stakes do not cover: with
  nothing else in the contract, the vote that would finalize the report reverts.
\<close>

lemma unfunded_validation_reverts:
  "balance stateU = 2 * 10 ^ 16 \<and> status (reports stateU 1) = Pending \<and>
   voteOnReport 23 VOTING_STAKE 2000 1 False stateU = Inl OutOfFunds"
  unfolding stateU_def by (simp add: scenario_defs)

text \<open>
  Claim C3. When a vote brings a report to its quorum and the report is finalized as
  \<open>Rejected\<close>, the submitter is paid nothing for the report: the report stake is split
  evenly (integer division) among the validators who voted invalid, of whom there is at least
  one, each of them also recovering the voting stake; a validator who voted valid recovers
  the voting stake only.
\<close>

theorem rejected_settlement:
  assumes "reachable s"
    and "voteOnReport sender v now i isValid s = Inr s'"
    and "MIN_VALIDATORS \<le> length (validators (reports s' i))"
    and "status (reports s' i) = Rejected"
  shows "\<not> validVotes (reports s' i) > invalidVotes (reports s' i) \<and>
         0 < invalidVotes (reports s' i) \<and>
         invalidVotes (reports s' i) =
           length (filter (\<lambda>x. votes (reports s' i) x = Invalid) (validators (reports s' i))) \<and>
         accounts s' a =
           accounts s a - (if a = sender then VOTING_STAKE else 0)
           + (if votes (reports s' i) a = Invalid
              then VOTING_STAKE + stakeAmount (reports s' i) div invalidVotes (reports s' i)
              else if votes (reports s' i) a = Valid then VOTING_STAKE else 0)"
proof -
  let ?s1 = "recordedVote sender i isValid s"
  let ?r = "reports ?s1 i"
  note fv = finalizing_vote[OF assms(1-3)]
  note fr = finalizeReport_reports[OF fv(1)]
  have r': "reports s' i = ?r\<lparr>status :=
      (if validVotes ?r > invalidVotes ?r then Validated else Rejected)\<rparr>"
    by (simp add: fr(1))
  from assms(4) have maj: "\<not> validVotes ?r > invalidVotes ?r"
    by (auto simp: r' split: if_splits)
  from fr(3) fv(7) maj have pos: "0 < invalidVotes ?r"
    by (simp add: MIN_VALIDATORS_def)
  then have pos': "0 < countCorrectValidators ?r (validators ?r)"
    by (simp add: fv(6))
  note v = finalizeReport_rejected[OF fv(1) maj pos']
  let ?share = "stakeAmount ?r div invalidVotes ?r"
  have "accounts s' a = accounts ?s1 a + paidTo (rejectedPay ?r ?share) (validators ?r) a"
    by (subst v(1)) (simp add: fv(6))
  moreover have "paidTo (rejectedPay ?r ?share) (validators ?r) a =
      (if votes ?r a = Invalid then VOTING_STAKE + ?share
       else if votes ?r a = Valid then VOTING_STAKE else 0)"
    using fv(4,5) by (cases "votes ?r a") (auto simp: paidTo_distinct[OF fv(3)] rejectedPay_def)
  moreover have "invalidVotes ?r = length (filter (\<lambda>x. votes ?r x = Invalid) (validators ?r))"
    using fv(6) by (simp add: countCorrectValidators_filter)
  ultimately show ?thesis
    using maj pos by (simp add: fv(2) r')
qed

lemma stateB0_run: "run (butlast scenarioB) (deploy 1 0 scenarioAccounts) = Inr stateB0"
  unfolding stateB0_def by (simp add: scenario_defs)

lemma stateB_vote: "voteOnReport 23 VOTING_STAKE 2000 1 True stateB0 = Inr stateB"
  unfolding stateB_def stateB0_def by (simp add: scenario_defs)

lemma stateB_fields:
  "invalidVotes (reports stateB 1) = 2"
  "reporter (reports stateB 1) = 10"
  "stakeAmount (reports stateB 1) = REPORT_STAKE"
  "votes (reports stateB 1) 10 = NoVote"
  "votes (reports stateB 1) 21 = Invalid"
  "votes (reports stateB 1) 22 = Invalid"
  "votes (reports stateB 1) 23 = Valid"
  unfolding stateB_def by (simp_all add: scenario_defs)

theorem rejected_settlement_witness:
  "reachable stateB0 \<and> voteOnReport 23 VOTING_STAKE 2000 1 True stateB0 = Inr stateB \<and>
   status (reports stateB 1) = Rejected \<and>
   accounts stateB 10 = accounts stateB0 10 \<and>
   accounts stateB 21 = accounts stateB0 21 + VOTING_STAKE + REPORT_STAKE div 2 \<and>
   accounts stateB 22 = accounts stateB0 22 + VOTING_STAKE + REPORT_STAKE div 2 \<and>
   accounts stateB 23 = accounts stateB0 23 - VOTING_STAKE + VOTING_STAKE"
proof -
  have r: "reachable stateB0"
    using reachable_run[OF reachable_deploy stateB0_run] .
  have q: "MIN_VALIDATORS \<le> length (validators (reports stateB 1))"
    using stateB_report(1) by (simp add: MIN_VALIDATORS_def)
  note t = rejected_settlement[OF r stateB_vote q stateB_report(2)]
  from t[of 10] t[of 21] t[of 22] t[of 23] r stateB_vote stateB_report(2) stateB_fields
  show ?thesis by simp
qed

subsection \<open>C5: no report ever expires\<close>

lemma stateP_run:
  "run (scenarioSetup @ [VoteOnReport 21 VOTING_STAKE 2000 1 True]) (deploy 1 0 scenarioAccounts)
     = Inr stateP"
  unfolding stateP_def by (simp add: scenario_defs)

lemma stateP_fields:
  "status (reports stateP 1) = Pending"
  "validators (reports stateP 1) = [21]"
  "votingDeadline (reports stateP 1) = 1000 + VOTING_PERIOD"
  "reportIds stateP = 1"
  "isActive (validators_map stateP 22)"
  "accounts stateP 22 = 10 ^ 18"
  unfolding stateP_def by (simp_all add: scenario_defs)

text \<open>
  Claim C5 fails on the code: report 1 of \<open>stateP\<close> is pending with one vote, and at a time
  after its voting deadline a vote on it reverts and a read returns it as it is stored,
  \<open>Pending\<close>.
\<close>

theorem lazy_expiry_counterexample:
  "status (reports stateP 1) = Pending \<and>
   length (validators (reports stateP 1)) < MIN_VALIDATORS \<and>
   votingDeadline (reports stateP 1) < 1000 + VOTING_PERIOD + 1 \<and>
   voteOnReport 22 VOTING_STAKE (1000 + VOTING_PERIOD + 1) 1 True stateP
     = Inl (Revert ''Voting period closed'') \<and>
   getReport 1 stateP = Inr (reports stateP 1) \<and>
   status (reports stateP 1) \<noteq> Expired"
  using stateP_fields
  by (simp add: voteOnReport_eq getReport_def MIN_VALIDATORS_def VOTING_STAKE_def VOTING_PERIOD_def)

text \<open>
  Claim C5, amended. No reachable state holds a report whose status is \<open>Expired\<close>. A vote
  cast after the voting deadline of a report reverts (with ``Voting period closed'' when
  the sender can pay, is an active validator and the report exists), which leaves the
  stored status as it was, and \<^verbatim>\<open>getReport\<close> returns the report as it is stored.
\<close>

theorem never_expired:
  assumes "reachable s"
  shows "status (reports s i) \<noteq> Expired \<and>
         (votingDeadline (reports s i) < now \<longrightarrow>
            (\<exists>e. voteOnReport sender v now i isValid s = Inl e) \<and>
            (v \<le> accounts s sender \<and> isActive (validators_map s sender) \<and> i \<le> reportIds s \<longrightarrow>
               voteOnReport sender v now i isValid s = Inl (Revert ''Voting period closed''))) \<and>
         (i \<le> reportIds s \<longrightarrow> getReport i s = Inr (reports s i))"
proof -
  from assms have "report_inv (reports s i)"
    using reachable_registry_inv by (simp add: registry_inv_def)
  then have "status (reports s i) \<noteq> Expired" by (simp add: report_inv_def)
  then show ?thesis
    by (simp add: voteOnReport_eq getReport_def)
qed

theorem never_expired_witness:
  "reachable stateP \<and> votingDeadline (reports stateP 1) < 1000 + VOTING_PERIOD + 1 \<and>
   status (reports stateP 1) \<noteq> Expired \<and>
   voteOnReport 22 VOTING_STAKE (1000 + VOTING_PERIOD + 1) 1 True stateP
     = Inl (Revert ''Voting period closed'') \<and>
   getReport 1 stateP = Inr (reports stateP 1)"
proof -
  have r: "reachable stateP"
    using reachable_run[OF reachable_deploy stateP_run] .
  from never_expired[OF r, of 1 "1000 + VOTING_PERIOD + 1" 22 VOTING_STAKE True] r stateP_fields
  show ?thesis by (simp add: VOTING_STAKE_def)
qed

subsection \<open>Every call of the registry conserves ether\<close>

lemma payouts_conserves:
  "payouts amt vs s = Inr s' \<Longrightarrow> totalAccounts s' + balance s' = totalAccounts s + balance s"
proof (induction vs arbitrary: s)
  case Nil
  then show ?case by simp
next
  case (Cons v vs)
  then obtain s1 where "transfer v (amt v) s = Inr s1" "payouts amt vs s1 = Inr s'"
    by (auto split: sum.splits)
  with Cons.IH[of s1] transfer_conserves[of v "amt v" s s1] show ?case by simp
qed

lemma updateValidatorReputation_ledger:
  "totalAccounts (updateValidatorReputation i s) = totalAccounts s"
  "balance (updateValidatorReputation i s) = balance s"
proof -
  have "accounts (updateValidatorReputation i s) = accounts s"
    by (subst updateValidatorReputation_frame) simp
  then show "totalAccounts (updateValidatorReputation i s) = totalAccounts s"
    by (simp add: totalAccounts_def)
  show "balance (updateValidatorReputation i s) = balance s"
    by (subst updateValidatorReputation_frame) simp
qed

lemma setStatus_ledger:
  "totalAccounts (setStatus i st s) = totalAccounts s" "balance (setStatus i st s) = balance s"
  by (simp_all add: setStatus_def totalAccounts_def)

lemma finalizeReport_conserves:
  assumes "finalizeReport i s = Inr s'"
  shows "totalAccounts s' + balance s' = totalAccounts s + balance s"
proof (cases "validVotes (reports s i) > invalidVotes (reports s i)")
  case True
  with assms obtain s1 s2 where
    t: "transfer (reporter (reports s i)) (stakeAmount (reports s i) + REPORTER_REWARD)
          (setStatus i Validated s) = Inr s1" and
    d: "distributeValidatorRewards i s1 = Inr s2" and
    u: "s' = updateValidatorReputation i s2"
    by (auto simp: finalizeReport_def Let_def split: if_splits sum.splits)
  from d have "totalAccounts s2 + balance s2 = totalAccounts s1 + balance s1"
    by (simp add: distributeValidatorRewards_def distributeValidatorRewards_loop_payouts
          payouts_conserves)
  with transfer_conserves[OF t] show ?thesis
    by (simp add: u updateValidatorReputation_ledger setStatus_ledger)
next
  case False
  with assms obtain s1 where
    d: "redistributeStake i (setStatus i Rejected s) = Inr s1" and
    u: "s' = updateValidatorReputation i s1"
    by (auto simp: finalizeReport_def Let_def split: if_splits sum.splits)
  from d have "totalAccounts s1 + balance s1
      = totalAccounts (setStatus i Rejected s) + balance (setStatus i Rejected s)"
    by (auto simp: redistributeStake_def redistributeStake_loop_payouts Let_def
          payouts_conserves split: if_splits)
  then show ?thesis
    by (simp add: u updateValidatorReputation_ledger setStatus_ledger)
qed

lemma recordedVote_conserves:
  "VOTING_STAKE \<le> accounts s sender \<Longrightarrow>
     totalAccounts (recordedVote sender i isValid s) + balance (recordedVote sender i isValid s)
       = totalAccounts s + balance s"
  using sum_upd_sub[of VOTING_STAKE "accounts s" sender]
  by (simp add: recordedVote_def Let_def totalAccounts_def)

lemma voteOnReport_conserves:
  assumes "voteOnReport sender v now i isValid s = Inr s'"
  shows "totalAccounts s' + balance s' = totalAccounts s + balance s"
proof -
  from assms have f: "VOTING_STAKE \<le> accounts s sender"
    by (auto simp: voteOnReport_eq split: if_splits)
  from assms have "finalizeReport i (recordedVote sender i isValid s) = Inr s'
      \<or> s' = recordedVote sender i isValid s"
    by (auto simp: voteOnReport_eq split: if_splits)
  then show ?thesis
    using finalizeReport_conserves[of i "recordedVote sender i isValid s" s']
      recordedVote_conserves[OF f, of i isValid] by auto
qed

lemma exec_conserves:
  "exec c s = Inr s' \<Longrightarrow> totalAccounts s' + balance s' = totalAccounts s + balance s"
proof (cases c)
  case (RegisterValidator a n)
  then show "exec c s = Inr s' \<Longrightarrow> ?thesis"
    by (auto simp: registerValidator_def totalAccounts_def Let_def split: if_splits)
next
  case (SubmitReportWithStake a v n t1 t2 t3 t4)
  then show "exec c s = Inr s' \<Longrightarrow> ?thesis"
    using payIn_conserves[of a v s]
    by (auto simp: submitReportWithStake_def totalAccounts_def Let_def split: if_splits sum.splits)
next
  case (VoteOnReport a v n i b)
  then show "exec c s = Inr s' \<Longrightarrow> ?thesis"
    by (simp add: voteOnReport_conserves)
next
  case (EmergencyWithdraw a)
  then show "exec c s = Inr s' \<Longrightarrow> ?thesis"
    by (auto simp: emergencyWithdraw_def transfer_conserves split: if_splits)
next
  case (ReceiveEther a v)
  then show "exec c s = Inr s' \<Longrightarrow> ?thesis"
    by (auto simp: receiveEther_def payIn_conserves)
qed

lemma stateC_run: "run scenarioC (deploy 1 0 scenarioAccounts) = Inr stateC"
  unfolding stateC_def by (simp add: scenarioC_def scenario_defs)

lemma stateC'_vote: "voteOnReport 23 VOTING_STAKE 2000 1 True stateC = Inr stateC'"
  unfolding stateC'_def stateC_def by (simp add: scenarioC_def scenario_defs)

lemma stateC_ledger:
  "balance stateC = 3 * 10 ^ 16" "lockedStakes stateC = 3 * 10 ^ 16"
  "balance stateC' = 2 * 10 ^ 15" "lockedStakes stateC' = 10 ^ 16"
  unfolding stateC'_def stateC_def lockedStakes_def reportLocked_def
  by (simp_all add: scenarioC_def scenario_defs upt_rec)

section \<open>Proofs about ReputationSystem\<close>

lemma updateStakedReputation_frame:
  "updateStakedReputation user s = Inr s' \<Longrightarrow>
     s' = s\<lparr>reputationProfiles := reputationProfiles s'\<rparr> \<and>
     baseReputation (reputationProfiles s' u) = baseReputation (reputationProfiles s u)"
  by (auto simp: updateStakedReputation_def Let_def split: if_splits)

lemma safeTransfer_Inr:
  "safeTransfer user n s = Inr s' \<Longrightarrow>
     s' = s\<lparr>tokenHeld := tokenHeld s - n,
            tokenBalance := (tokenBalance s)(user := tokenBalance s user + n)\<rparr> \<and> n \<le> tokenHeld s"
  by (auto simp: safeTransfer_def split: if_splits)

lemmas rs_scenario_defs = rsFresh_def rs_deploy_def
  updateReputation_def depositStake_def withdrawStake_def slashUser_def
  updateStakedReputation_def calculateTier_def safeTransfer_def safeTransferFrom_def
  emptyProfile_def emptyStake_def initialMultipliers_def
  MIN_STAKE_AMOUNT_def MAX_STAKE_PERIOD_def MIN_STAKE_PERIOD_def SLASHING_PENALTY_def
  MAX_STAKES_PER_USER_def UINT256_LIMIT_def INT256_MIN_def Let_def

subsection \<open>C8: the early-withdrawal penalty\<close>

text \<open>
  Claim C8. A withdrawal that succeeds is of an active stake and makes it inactive. Before
  the lock period has elapsed the owner is paid the amount less the penalty, which is
  \<open>SLASHING_PENALTY\<close> percent of the amount (rounded down, so that the owner is paid
  \<open>100 - SLASHING_PENALTY\<close> percent of the amount rounded up), and the penalty is added
  to the reward pool; from the end of the lock period on the owner is paid the whole amount
  and the reward pool is unchanged.
\<close>

theorem early_withdrawal_penalty:
  assumes "withdrawStake sender now stakeId s = Inr s'"
  shows "active (userStakes s sender stakeId) \<and> \<not> active (userStakes s' sender stakeId) \<and>
         (let a = amount (userStakes s sender stakeId);
              unlockTime = stakeTimestamp (userStakes s sender stakeId)
                             + lockPeriod (userStakes s sender stakeId);
              penalty = a * SLASHING_PENALTY div 100
          in (now < unlockTime \<longrightarrow>
                tokenBalance s' sender = tokenBalance s sender + (a - penalty) \<and>
                totalRewards (rewardPool s') = totalRewards (rewardPool s) + penalty \<and>
                (a - penalty) + penalty = a \<and>
                a * (100 - SLASHING_PENALTY) div 100 \<le> a - penalty \<and>
                a - penalty \<le> a * (100 - SLASHING_PENALTY) div 100 + 1) \<and>
             (unlockTime \<le> now \<longrightarrow>
                tokenBalance s' sender = tokenBalance s sender + a \<and>
                totalRewards (rewardPool s') = totalRewards (rewardPool s)))"
proof -
  let ?st = "userStakes s sender stakeId"
  let ?early = "now < stakeTimestamp ?st + lockPeriod ?st"
  let ?penalty = "if ?early then (amount ?st * SLASHING_PENALTY) div 100 else 0"
  let ?w = "if ?early then amount ?st - ?penalty else amount ?st"
  let ?s1 = "s\<lparr>userStakes := (userStakes s)(sender := (userStakes s sender)(stakeId :=
                 ?st\<lparr>active := False\<rparr>)),
              userStakeCount := (userStakeCount s)(sender := userStakeCount s sender - 1)\<rparr>"
  from assms have act: "active ?st"
    by (auto simp: withdrawStake_def Let_def split: if_splits)
  from assms obtain s2 s3 where
    u: "updateStakedReputation sender ?s1 = Inr s2" and
    t: "safeTransfer sender ?w s2 = Inr s3" and
    p: "s' = (if ?penalty > 0
              then s3\<lparr>rewardPool := (rewardPool s3)\<lparr>totalRewards :=
                        totalRewards (rewardPool s3) + ?penalty\<rparr>\<rparr>
              else s3)"
    by (auto simp: withdrawStake_def Let_def split: if_splits sum.splits)
  from updateStakedReputation_frame[OF u] have s2: "s2 = ?s1\<lparr>reputationProfiles := reputationProfiles s2\<rparr>"
    by simp
  from safeTransfer_Inr[OF t] have s3: "s3 = s2\<lparr>tokenHeld := tokenHeld s2 - ?w,
            tokenBalance := (tokenBalance s2)(sender := tokenBalance s2 sender + ?w)\<rparr>"
    by simp
  have stakes2: "userStakes s2 = userStakes ?s1" and bal2: "tokenBalance s2 = tokenBalance s"
    and pool2: "rewardPool s2 = rewardPool s"
    by (subst s2, simp)+
  have stakes': "userStakes s' = userStakes s2"
    and bal': "tokenBalance s' sender = tokenBalance s2 sender + ?w"
    and pool': "totalRewards (rewardPool s') = totalRewards (rewardPool s2) + ?penalty"
    unfolding p by (subst s3, simp)+
  have le: "amount ?st * SLASHING_PENALTY div 100 \<le> amount ?st"
    by (simp add: SLASHING_PENALTY_def)
  have rounding:
    "amount ?st * (100 - SLASHING_PENALTY) div 100 \<le> amount ?st - amount ?st * SLASHING_PENALTY div 100"
    "amount ?st - amount ?st * SLASHING_PENALTY div 100 \<le> amount ?st * (100 - SLASHING_PENALTY) div 100 + 1"
    unfolding SLASHING_PENALTY_def by simp_all
  show ?thesis
    using act le rounding by (simp add: stakes' stakes2 bal' bal2 pool' pool2 Let_def)
qed

lemma rsStaked_run:
  "rs_run [UpdateReputation 1 900 7 50 True,
           DepositStake 7 1000 (1000 * 10 ^ 18) (30 * 86400) ReportStake] rsFresh = Inr rsStaked"
  unfolding rsStaked_def by (simp add: rs_scenario_defs)

lemma rsStaked_fields:
  "amount (userStakes rsStaked 7 1) = 1000 * 10 ^ 18"
  "stakeTimestamp (userStakes rsStaked 7 1) = 1000"
  "lockPeriod (userStakes rsStaked 7 1) = 30 * 86400"
  "tokenBalance rsStaked 7 = 0"
  "tokenHeld rsStaked = 1000 * 10 ^ 18"
  "totalRewards (rewardPool rsStaked) = 0"
  unfolding rsStaked_def by (simp_all add: rs_scenario_defs)

lemma rsEarly_withdraw: "withdrawStake 7 (1000 + 30 * 86400 - 1) 1 rsStaked = Inr rsEarly"
  unfolding rsEarly_def rsStaked_def by (simp add: rs_scenario_defs)

lemma rsLate_withdraw: "withdrawStake 7 (1000 + 30 * 86400) 1 rsStaked = Inr rsLate"
  unfolding rsLate_def rsStaked_def by (simp add: rs_scenario_defs)

theorem early_withdrawal_penalty_witness:
  "withdrawStake 7 (1000 + 30 * 86400 - 1) 1 rsStaked = Inr rsEarly \<and>
   active (userStakes rsStaked 7 1) \<and> \<not> active (userStakes rsEarly 7 1) \<and>
   tokenBalance rsEarly 7 = tokenBalance rsStaked 7 + 900 * 10 ^ 18 \<and>
   totalRewards (rewardPool rsEarly) = totalRewards (rewardPool rsStaked) + 100 * 10 ^ 18 \<and>
   withdrawStake 7 (1000 + 30 * 86400) 1 rsStaked = Inr rsLate \<and>
   \<not> active (userStakes rsLate 7 1) \<and>
   tokenBalance rsLate 7 = tokenBalance rsStaked 7 + 1000 * 10 ^ 18 \<and>
   totalRewards (rewardPool rsLate) = totalRewards (rewardPool rsStaked)"
  using early_withdrawal_penalty[OF rsEarly_withdraw] early_withdrawal_penalty[OF rsLate_withdraw]
    rsEarly_withdraw rsLate_withdraw rsStaked_fields
  by (simp add: Let_def SLASHING_PENALTY_def)

subsection \<open>C9: adjusting the base reputation\<close>

lemma updateStakedReputation_base:
  "updateStakedReputation user s = Inr s' \<Longrightarrow>
     baseReputation (reputationProfiles s' user) = baseReputation (reputationProfiles s user)"
  by (auto simp: updateStakedReputation_def Let_def split: if_splits)

lemma rsPenalised_update: "updateReputation 1 100 5 (- 3) False rsFresh = Inr rsPenalised"
  unfolding rsPenalised_def by (simp add: rs_scenario_defs)

lemma rsPenalised_fields:
  "baseReputation (reputationProfiles rsFresh 5) = 0"
  "baseReputation (reputationProfiles rsPenalised 5) = 7"
  unfolding rsPenalised_def by (simp_all add: rs_scenario_defs)

text \<open>
  Claim C9 fails on the code: account 5 is new, with base reputation 0, and a change of
  \<open>-3\<close> leaves it with 7, not with 0.
\<close>

theorem adjustBase_counterexample:
  "baseReputation (reputationProfiles rsFresh 5) = 0 \<and>
   updateReputation 1 100 5 (- 3) False rsFresh = Inr rsPenalised \<and>
   baseReputation (reputationProfiles rsPenalised 5) = 7 \<and>
   baseReputation (reputationProfiles rsPenalised 5) \<noteq> 0"
  using rsPenalised_update rsPenalised_fields by simp

text \<open>
  Claim C9, amended. For a new account, one that has no profile yet,
  \<^verbatim>\<open>updateReputation\<close> starts from the base reputation 10 of a new user; for an
  account whose base reputation is not 0 it starts from that base reputation. To the
  starting value it adds the change when the change is positive, and otherwise subtracts the
  size of the change, stopping at 0.
\<close>

theorem adjustBase_floor:
  assumes "updateReputation sender now user change isCorrectVote s = Inr s'"
    and "reputationProfiles s user = emptyProfile \<or>
         baseReputation (reputationProfiles s user) \<noteq> 0"
  shows "baseReputation (reputationProfiles s' user) =
     (let start = (if reputationProfiles s user = emptyProfile then 10
                   else baseReputation (reputationProfiles s user))
      in if change > 0 then start + nat change
         else if nat (- change) \<le> start then start - nat (- change) else 0)"
proof -
  have zero: "baseReputation (reputationProfiles s user) = 0"
    if "reputationProfiles s user = emptyProfile"
    using that by (simp add: emptyProfile_def)
  let ?start = "if baseReputation (reputationProfiles s user) = 0 then 10
                else baseReputation (reputationProfiles s user)"
  from assms(1) have "baseReputation (reputationProfiles s' user) =
      (if change > 0 then ?start + nat change
       else if nat (- change) \<le> ?start then ?start - nat (- change) else 0)"
    by (auto simp: updateReputation_def Let_def split: if_splits sum.splits
             dest!: updateStakedReputation_base)
  with assms(2) zero show ?thesis
    by (auto simp: Let_def)
qed

lemma rsFloored_update: "updateReputation 1 2000 7 (- 100) False rsStaked = Inr rsFloored"
  unfolding rsFloored_def rsStaked_def by (simp add: rs_scenario_defs)

lemma rsFloored_fields:
  "baseReputation (reputationProfiles rsStaked 7) = 60"
  "baseReputation (reputationProfiles rsFloored 7) = 0"
  unfolding rsFloored_def rsStaked_def by (simp_all add: rs_scenario_defs)

theorem adjustBase_floor_witness:
  "reputationProfiles rsFresh 5 = emptyProfile \<and>
   updateReputation 1 100 5 (- 3) False rsFresh = Inr rsPenalised \<and>
   baseReputation (reputationProfiles rsPenalised 5) = 10 - 3 \<and>
   baseReputation (reputationProfiles rsStaked 7) = 60 \<and>
   updateReputation 1 2000 7 (- 100) False rsStaked = Inr rsFloored \<and>
   baseReputation (reputationProfiles rsFloored 7) = 0"
proof -
  have new: "reputationProfiles rsFresh 5 = emptyProfile"
    by (simp add: rsFresh_def rs_deploy_def)
  have old: "baseReputation (reputationProfiles rsStaked 7) \<noteq> 0"
    using rsFloored_fields(1) by simp
  then have "reputationProfiles rsStaked 7 \<noteq> emptyProfile"
    by (auto simp: emptyProfile_def)
  with adjustBase_floor[OF rsPenalised_update] adjustBase_floor[OF rsFloored_update]
    new old rsPenalised_update rsFloored_update rsFloored_fields
  show ?thesis by (simp add: Let_def)
qed

text \<open>
  The guard of \<^verbatim>\<open>updateReputation\<close>, commented ``Initialize new user'', compares the
  base reputation with 0, so it also holds for an account whose base reputation a penalty
  has brought to 0: after the penalties of 3 and of 10 account 5 is at 0, and the penalty of
  1 leaves it at 9.
\<close>

lemma penalty_after_floor:
  "rs_run [UpdateReputation 1 100 5 (- 3) False, UpdateReputation 1 200 5 (- 10) False] rsFresh
     = Inr s \<Longrightarrow> baseReputation (reputationProfiles s 5) = 0"
  "baseReputation (reputationProfiles rsThrice 5) = 9"
  unfolding rsThrice_def by (auto simp: rs_scenario_defs)

section \<open>Proofs about the quorum decisions\<close>

subsection \<open>C7: a tie is a rejection\<close>

lemmas ev_scenario_defs = evBefore_def evSetup_def hash77_def ev_deploy_def
  submitEvidence_def validateEvidence_def finalizeValidation_def authorizeValidator_def
  emergencyUpdateEvidenceStatus_def emptyEvidence_def emptyMetadata_def
  MIN_VALIDATION_REPUTATION_def MAX_FILE_SIZE_def MIN_VALIDATIONS_REQUIRED_def
  VALIDATION_TIMEOUT_def IPFS_HASH_LENGTH_def REPUTATION_REWARD_VALIDATION_def
  UINT256_LIMIT_def Let_def

lemma validateEvidence_finalizes:
  assumes "validateEvidence sender now eid verdict why lvl s = Inr s'"
    and "validationCount (evidence s' eid) \<ge> MIN_VALIDATIONS_REQUIRED"
  shows "ev_status (evidence s' eid) =
     (if positiveValidations (evidence s' eid) > negativeValidations (evidence s' eid)
      then EvValidated else EvRejected)"
  using assms
  by (auto simp: validateEvidence_def finalizeValidation_def Let_def split: if_splits)

text \<open>
  Claim C7. A report that \<^verbatim>\<open>_finalizeReport\<close> finalizes with as many valid as invalid
  votes is \<open>Rejected\<close>. An evidence item that \<^verbatim>\<open>_finalizeValidation\<close> finalizes with
  as many positive as negative validations is \<open>EvRejected\<close>, and so is one that a
  validation brings to the quorum with such a tie.
\<close>

theorem tie_rejects:
  "(finalizeReport i s = Inr s' \<and> validVotes (reports s i) = invalidVotes (reports s i)
      \<longrightarrow> status (reports s' i) = Rejected) \<and>
   (positiveValidations (evidence es eid) = negativeValidations (evidence es eid)
      \<longrightarrow> ev_status (evidence (finalizeValidation eid es) eid) = EvRejected) \<and>
   (validateEvidence sender now eid verdict why lvl es = Inr es' \<and>
    validationCount (evidence es' eid) \<ge> MIN_VALIDATIONS_REQUIRED \<and>
    positiveValidations (evidence es' eid) = negativeValidations (evidence es' eid)
      \<longrightarrow> ev_status (evidence es' eid) = EvRejected)"
proof -
  have "status (reports s' i) = Rejected"
    if "finalizeReport i s = Inr s'" "validVotes (reports s i) = invalidVotes (reports s i)"
    using finalizeReport_reports(1)[OF that(1)] that(2) by simp
  moreover have "ev_status (evidence (finalizeValidation eid es) eid) = EvRejected"
    if "positiveValidations (evidence es eid) = negativeValidations (evidence es eid)"
    using that by (simp add: finalizeValidation_def Let_def)
  moreover have "ev_status (evidence es' eid) = EvRejected"
    if "validateEvidence sender now eid verdict why lvl es = Inr es'"
      "validationCount (evidence es' eid) \<ge> MIN_VALIDATIONS_REQUIRED"
      "positiveValidations (evidence es' eid) = negativeValidations (evidence es' eid)"
    using validateEvidence_finalizes[OF that(1,2)] that(3) by simp
  ultimately show ?thesis by blast
qed

lemma tiedRegistry_finalize: "finalizeReport 1 tiedRegistry = Inr tiedRegistry'"
  unfolding tiedRegistry'_def
  by (simp add: tiedRegistry_def tiedReport_def scenario_defs)

lemma tiedRegistry_votes:
  "validVotes (reports tiedRegistry 1) = 2" "invalidVotes (reports tiedRegistry 1) = 2"
  by (simp_all add: tiedRegistry_def tiedReport_def emptyReport_def)

lemma evReopened_fields:
  "ev_status (evidence evReopened 77) = EvPending"
  "positiveValidations (evidence evReopened 77) = 2"
  "negativeValidations (evidence evReopened 77) = 1"
  unfolding evReopened_def by (simp_all add: ev_scenario_defs)

lemma evTied_validate:
  "validateEvidence 1 3000 77 False ''not convinced'' Expert evReopened = Inr evTied"
  unfolding evTied_def evReopened_def by (simp add: ev_scenario_defs)

lemma evTied_fields:
  "validationCount (evidence evTied 77) = 4"
  "positiveValidations (evidence evTied 77) = 2"
  "negativeValidations (evidence evTied 77) = 2"
  unfolding evTied_def evReopened_def by (simp_all add: ev_scenario_defs)

theorem tie_rejects_witness:
  "finalizeReport 1 tiedRegistry = Inr tiedRegistry' \<and>
   validVotes (reports tiedRegistry 1) = invalidVotes (reports tiedRegistry 1) \<and>
   status (reports tiedRegistry' 1) = Rejected \<and>
   validateEvidence 1 3000 77 False ''not convinced'' Expert evReopened = Inr evTied \<and>
   positiveValidations (evidence evTied 77) = negativeValidations (evidence evTied 77) \<and>
   ev_status (evidence evTied 77) = EvRejected \<and>
   ev_status (evidence (finalizeValidation 77 evTied) 77) = EvRejected"
  using tie_rejects[where i = 1 and s = tiedRegistry and s' = tiedRegistry' and es = evReopened
          and eid = 77 and sender = 1 and now = 3000 and verdict = False
          and why = "''not convinced''" and lvl = Expert and es' = evTied]
    tie_rejects[where i = 1 and s = tiedRegistry and s' = tiedRegistry' and es = evTied
          and eid = 77 and sender = 1 and now = 3000 and verdict = False
          and why = "''not convinced''" and lvl = Expert and es' = evTied]
    tiedRegistry_finalize tiedRegistry_votes evTied_validate evTied_fields
  by (simp add: MIN_VALIDATIONS_REQUIRED_def)

subsection \<open>C6: the reputation reward of evidence validators\<close>

lemma evRejectedState_fields:
  "ev_status (evidence evRejectedState 77) = EvRejected"
  "map vr_validator (validationResults evRejectedState 77) = [31, 32, 33]"
  "map vr_isValid (validationResults evRejectedState 77) = [False, False, True]"
  "validatorReputation evRejectedState 31 = 60"
  "validatorReputation evRejectedState 32 = 60"
  "validatorReputation evRejectedState 33 = 62"
  unfolding evRejectedState_def by (simp_all add: ev_scenario_defs)

lemma evBefore_fields:
  "validatorReputation evBefore 31 = 60"
  "validatorReputation evBefore 32 = 60"
  "validatorReputation evBefore 33 = 60"
  "ev_status (evidence evBefore 77) = EvPending"
  by (simp_all add: ev_scenario_defs)

text \<open>
  Claim C6 fails on the code: the item of \<open>evRejectedState\<close> is rejected by the verdicts
  negative, negative, positive of the validators 31, 32 and 33. The validators 31 and 32,
  whose verdict matches the outcome, keep their reputation of 60, and validator 33, whose
  verdict does not, has gained the reward.
\<close>

theorem evidence_reward_counterexample:
  "ev_status (evidence evRejectedState 77) = EvRejected \<and>
   map vr_validator (validationResults evRejectedState 77) = [31, 32, 33] \<and>
   map vr_isValid (validationResults evRejectedState 77) = [False, False, True] \<and>
   validatorReputation evRejectedState 31 = validatorReputation evBefore 31 \<and>
   validatorReputation evRejectedState 32 = validatorReputation evBefore 32 \<and>
   validatorReputation evRejectedState 33
     = validatorReputation evBefore 33 + REPUTATION_REWARD_VALIDATION"
  using evRejectedState_fields evBefore_fields
  by (simp add: REPUTATION_REWARD_VALIDATION_def)

text \<open>
  Claim C6, amended. A validation that succeeds adds \<open>REPUTATION_REWARD_VALIDATION\<close> to the
  reputation of its sender when the verdict is positive and changes no reputation
  otherwise, whatever the outcome of the item is or will be; \<^verbatim>\<open>_finalizeValidation\<close>
  changes no reputation.
\<close>

theorem evidence_reward:
  "(validateEvidence sender now eid verdict why lvl s = Inr s' \<longrightarrow>
      validatorReputation s' a =
        validatorReputation s a
          + (if a = sender \<and> verdict then REPUTATION_REWARD_VALIDATION else 0)) \<and>
   validatorReputation (finalizeValidation eid s) = validatorReputation s"
  by (auto simp: validateEvidence_def finalizeValidation_def Let_def split: if_splits)

lemma evFirst_validate:
  "validateEvidence 31 2000 77 True ''clearly phishing'' Basic evBefore = Inr evFirst"
  unfolding evFirst_def by (simp add: ev_scenario_defs)

theorem evidence_reward_witness:
  "validateEvidence 31 2000 77 True ''clearly phishing'' Basic evBefore = Inr evFirst \<and>
   validatorReputation evFirst 31 = validatorReputation evBefore 31 + 2 \<and>
   validatorReputation evFirst 32 = validatorReputation evBefore 32 \<and>
   validateEvidence 1 3000 77 False ''not convinced'' Expert evReopened = Inr evTied \<and>
   validatorReputation evTied 1 = validatorReputation evReopened 1"
  using evidence_reward[where sender = 31 and now = 2000 and eid = 77 and verdict = True
          and why = "''clearly phishing''" and lvl = Basic and s = evBefore and s' = evFirst
          and a = 31]
    evidence_reward[where sender = 31 and now = 2000 and eid = 77 and verdict = True
          and why = "''clearly phishing''" and lvl = Basic and s = evBefore and s' = evFirst
          and a = 32]
    evidence_reward[where sender = 1 and now = 3000 and eid = 77 and verdict = False
          and why = "''not convinced''" and lvl = Expert and s = evReopened and s' = evTied
          and a = 1]
    evFirst_validate evTied_validate
  by (simp add: REPUTATION_REWARD_VALIDATION_def)

section \<open>Proofs about report submission\<close>

subsection \<open>C4: the reputation floor\<close>

lemma stateS_submit:
  "submitReportWithStake 10 REPORT_STAKE 1000 ''phishing_url'' ''http://login.example''
     ''fake login page'' ''QmHash'' (deploy 1 0 scenarioAccounts) = Inr stateS"
  unfolding stateS_def by (simp add: scenario_defs)

lemma stateS_fields:
  "reportIds stateS = 1" "status (reports stateS 1) = Pending"
  "reporter (reports stateS 1) = 10" "stakeAmount (reports stateS 1) = REPORT_STAKE"
  "balance stateS = REPORT_STAKE"
  unfolding stateS_def by (simp_all add: scenario_defs)

text \<open>
  Claim C4 fails on the code: account 10 has reputation 0 in the registry that keeps the
  report floor and no profile in the reputation system, and its stake-locking submission to
  a registry without reports succeeds: report 1 is created and the stake is taken.
\<close>

theorem reputation_floor_counterexample:
  "userReputation (pb_deploy 1) 10 = 0 \<and>
   baseReputation (reputationProfiles rsFresh 10) = 0 \<and>
   reportIds (deploy 1 0 scenarioAccounts) = 0 \<and> balance (deploy 1 0 scenarioAccounts) = 0 \<and>
   submitReportWithStake 10 REPORT_STAKE 1000 ''phishing_url'' ''http://login.example''
     ''fake login page'' ''QmHash'' (deploy 1 0 scenarioAccounts) = Inr stateS \<and>
   reportIds stateS = 1 \<and> reporter (reports stateS 1) = 10 \<and>
   status (reports stateS 1) = Pending \<and> balance stateS = REPORT_STAKE"
  using stateS_submit stateS_fields
  by (simp add: pb_deploy_def rs_scenario_defs deploy_def)

text \<open>
  Claim C4, amended. The reputation floor guards \<^verbatim>\<open>PhishBlockRegistry.submitReport\<close>,
  which locks no stake: for a sender whose reputation there is below
  \<open>MIN_REPUTATION_TO_REPORT\<close> the call reverts, with ``Insufficient reputation to report''
  unless the contract is paused, and so creates no report. The stake-locking
  \<^verbatim>\<open>submitReportWithStake\<close> has no reputation floor: it succeeds exactly when the
  sender can pay the value sent, the value is \<open>REPORT_STAKE\<close>, and the report type, the
  target and the description are not empty.
\<close>

theorem reputation_floor:
  "(userReputation p sender < MIN_REPUTATION_TO_REPORT \<longrightarrow>
      submitReport hash sender now url wallet descr ipfs eType p =
        Inl (Revert (if pb_paused p then ''EnforcedPause''
                     else ''Insufficient reputation to report''))) \<and>
   ((\<exists>s'. submitReportWithStake sender v now rType tValue descr rHash s = Inr s') =
      (v \<le> accounts s sender \<and> v = REPORT_STAKE \<and> rType \<noteq> [] \<and> tValue \<noteq> [] \<and> descr \<noteq> []))"
  by (auto simp: submitReport_def submitReportWithStake_def payIn_def Let_def)

theorem reputation_floor_witness:
  "userReputation (pb_deploy 1) 10 < MIN_REPUTATION_TO_REPORT \<and>
   submitReport (\<lambda>a u w d h t c. 5) 10 1000 ''http://login.example'' [] ''fake login page''
       ''QmHash'' PbURL (pb_deploy 1)
     = Inl (Revert ''Insufficient reputation to report'') \<and>
   (\<exists>s'. submitReportWithStake 10 REPORT_STAKE 1000 ''phishing_url'' ''http://login.example''
            ''fake login page'' ''QmHash'' (deploy 1 0 scenarioAccounts) = Inr s')"
proof -
  have low: "userReputation (pb_deploy 1) 10 < MIN_REPUTATION_TO_REPORT"
    by (simp add: pb_deploy_def MIN_REPUTATION_TO_REPORT_def)
  have np: "\<not> pb_paused (pb_deploy 1)" by (simp add: pb_deploy_def)
  have funds: "REPORT_STAKE \<le> accounts (deploy 1 0 scenarioAccounts) 10"
    by (simp add: deploy_def scenarioAccounts_def REPORT_STAKE_def)
  note t = reputation_floor[where p = "pb_deploy 1" and sender = 10 and now = 1000
      and hash = "\<lambda>a u w d h t c. 5" and url = "''http://login.example''" and wallet = "[]"
      and descr = "''fake login page''" and ipfs = "''QmHash''" and eType = PbURL
      and v = REPORT_STAKE and rType = "''phishing_url''" and tValue = "''http://login.example''"
      and rHash = "''QmHash''" and s = "deploy 1 0 scenarioAccounts"]
  from t low np funds show ?thesis by simp
qed

section \<open>Proofs about the conservation of value\<close>

lemma sum_upd:
  fixes f :: "address \<Rightarrow> nat"
  shows "sum (f(a := v)) UNIV + f a = sum f UNIV + v"
proof -
  have 1: "sum (f(a := v)) UNIV = (f(a := v)) a + sum (f(a := v)) (UNIV - {a})"
    by (rule sum.remove) auto
  have 2: "sum (f(a := v)) (UNIV - {a}) = sum f (UNIV - {a})"
    by (rule sum.cong) auto
  have 3: "sum f UNIV = f a + sum f (UNIV - {a})"
    by (rule sum.remove) auto
  show ?thesis using 1 2 3 by simp
qed

lemma sum_atMost_upd:
  fixes g :: "nat \<Rightarrow> nat"
  assumes "k \<le> n"
  shows "sum (g(k := v)) {..n} + g k = sum g {..n} + v"
proof -
  have 1: "sum (g(k := v)) {..n} = (g(k := v)) k + sum (g(k := v)) ({..n} - {k})"
    using assms by (intro sum.remove) auto
  have 2: "sum (g(k := v)) ({..n} - {k}) = sum g ({..n} - {k})"
    by (rule sum.cong) auto
  have 3: "sum g {..n} = g k + sum g ({..n} - {k})"
    using assms by (intro sum.remove) auto
  show ?thesis using 1 2 3 by simp
qed

lemma updateStakedReputation_totals:
  assumes "updateStakedReputation user s = Inr s'"
  shows "stakingTotal s' = stakingTotal s" and "rs_inv s' = rs_inv s"
proof -
  from updateStakedReputation_frame[OF assms]
  have e: "s' = s\<lparr>reputationProfiles := reputationProfiles s'\<rparr>" by simp
  have "userStakes s' = userStakes s" "stakeCounter s' = stakeCounter s"
    "tokenBalance s' = tokenBalance s" "rewardPool s' = rewardPool s"
    "pendingRewards s' = pendingRewards s"
    by (subst e, simp)+
  then show "stakingTotal s' = stakingTotal s" and "rs_inv s' = rs_inv s"
    by (simp_all add: stakingTotal_def tokenTotal_def totalActiveStakes_def stakedBy_def
          rs_inv_def fun_eq_iff)
qed

lemma stakedBy_upd_stake:
  assumes "k \<le> stakeCounter s"
  shows "stakedBy (s\<lparr>userStakes := (userStakes s)(user := (userStakes s user)(k := st))\<rparr>)
           = (stakedBy s)(user := stakedBy s user + activeAmount st
                                   - activeAmount (userStakes s user k))"
proof (rule ext)
  fix u
  let ?s' = "s\<lparr>userStakes := (userStakes s)(user := (userStakes s user)(k := st))\<rparr>"
  show "stakedBy ?s' u = ((stakedBy s)(user := stakedBy s user + activeAmount st
                                   - activeAmount (userStakes s user k))) u"
  proof (cases "u = user")
    case True
    let ?g = "\<lambda>i. activeAmount (userStakes s user i)"
    have "stakedBy ?s' user = sum (?g(k := activeAmount st)) {..stakeCounter s}"
      unfolding stakedBy_def by (rule sum.cong) auto
    moreover have "?g k \<le> sum ?g {..stakeCounter s}"
      using assms by (intro member_le_sum) auto
    ultimately show ?thesis
      using sum_atMost_upd[OF assms, of ?g "activeAmount st"] True
      by (simp add: stakedBy_def)
  next
    case False
    then show ?thesis by (simp add: stakedBy_def)
  qed
qed

lemma stakedBy_new_stake:
  assumes "\<forall>u. \<not> active (userStakes s u (Suc (stakeCounter s)))"
  shows "stakedBy (s\<lparr>stakeCounter := Suc (stakeCounter s),
            userStakes := (userStakes s)(user := (userStakes s user)(Suc (stakeCounter s) := st))\<rparr>)
           = (stakedBy s)(user := stakedBy s user + activeAmount st)"
proof (rule ext)
  fix u
  let ?n = "stakeCounter s"
  let ?s' = "s\<lparr>stakeCounter := Suc ?n,
            userStakes := (userStakes s)(user := (userStakes s user)(Suc ?n := st))\<rparr>"
  have old: "sum (\<lambda>i. activeAmount (userStakes ?s' u i)) {..?n}
           = sum (\<lambda>i. activeAmount (userStakes s u i)) {..?n}"
    by (rule sum.cong) auto
  have new: "activeAmount (userStakes ?s' u (Suc ?n)) = (if u = user then activeAmount st else 0)"
    using assms by (simp add: activeAmount_def)
  have "stakedBy ?s' u = sum (\<lambda>i. activeAmount (userStakes ?s' u i)) {..?n}
                          + activeAmount (userStakes ?s' u (Suc ?n))"
    by (simp add: stakedBy_def atMost_Suc)
  then show "stakedBy ?s' u = ((stakedBy s)(user := stakedBy s user + activeAmount st)) u"
    unfolding old new by (simp add: stakedBy_def)
qed

lemma stakedBy_le_total: "stakedBy s u \<le> totalActiveStakes s"
  unfolding totalActiveStakes_def by (rule member_le_sum) auto

lemma activeAmount_le_stakedBy:
  "k \<le> stakeCounter s \<Longrightarrow> activeAmount (userStakes s u k) \<le> stakedBy s u"
  unfolding stakedBy_def
  by (rule member_le_sum[of k "{..stakeCounter s}" "\<lambda>i. activeAmount (userStakes s u i)"]) auto

lemma stakingTotal_cong:
  assumes "userStakes s' = userStakes s" "stakeCounter s' = stakeCounter s"
    "tokenBalance s' = tokenBalance s" "totalRewards (rewardPool s') = totalRewards (rewardPool s)"
  shows "stakingTotal s' = stakingTotal s"
  using assms
  by (simp add: stakingTotal_def tokenTotal_def totalActiveStakes_def stakedBy_def)

lemma rs_inv_cong:
  assumes "userStakes s' = userStakes s" "stakeCounter s' = stakeCounter s"
    "pendingRewards s' = pendingRewards s"
  shows "rs_inv s' = rs_inv s"
  using assms by (simp add: rs_inv_def)

lemma totalActiveStakes_upd:
  assumes "stakeCounter s' = stakeCounter s"
    and "userStakes s' = (userStakes s)(user := (userStakes s user)(k := st))"
    and "k \<le> stakeCounter s"
  shows "totalActiveStakes s' + activeAmount (userStakes s user k)
           = totalActiveStakes s + activeAmount st"
proof -
  let ?s1 = "s\<lparr>userStakes := (userStakes s)(user := (userStakes s user)(k := st))\<rparr>"
  have "stakedBy s' = stakedBy ?s1"
    using assms(1,2) by (simp add: stakedBy_def fun_eq_iff)
  then have e: "stakedBy s' = (stakedBy s)(user := stakedBy s user + activeAmount st
                                   - activeAmount (userStakes s user k))"
    using stakedBy_upd_stake[OF assms(3), of user st] by simp
  have le: "activeAmount (userStakes s user k) \<le> stakedBy s user"
    using activeAmount_le_stakedBy[OF assms(3)] .
  have "sum (stakedBy s') UNIV + stakedBy s user
      = sum (stakedBy s) UNIV + (stakedBy s user + activeAmount st
                                   - activeAmount (userStakes s user k))"
    unfolding e by (rule sum_upd)
  with le show ?thesis by (simp add: totalActiveStakes_def)
qed

lemma totalActiveStakes_new:
  assumes "stakeCounter s' = Suc (stakeCounter s)"
    and "userStakes s' = (userStakes s)(user := (userStakes s user)(Suc (stakeCounter s) := st))"
    and "\<forall>u. \<not> active (userStakes s u (Suc (stakeCounter s)))"
  shows "totalActiveStakes s' = totalActiveStakes s + activeAmount st"
proof -
  let ?s1 = "s\<lparr>stakeCounter := Suc (stakeCounter s),
            userStakes := (userStakes s)(user := (userStakes s user)(Suc (stakeCounter s) := st))\<rparr>"
  have "stakedBy s' = stakedBy ?s1"
    using assms(1,2) by (simp add: stakedBy_def fun_eq_iff)
  then have e: "stakedBy s' = (stakedBy s)(user := stakedBy s user + activeAmount st)"
    using stakedBy_new_stake[OF assms(3), of user st] by simp
  show ?thesis
    unfolding totalActiveStakes_def e by (rule sum_upd_add)
qed

lemma withdrawStake_conserves:
  assumes w: "withdrawStake sender now stakeId s = Inr s'" and inv: "rs_inv s"
  shows "stakingTotal s' = stakingTotal s \<and> rs_inv s'"
proof -
  let ?st = "userStakes s sender stakeId"
  let ?early = "now < stakeTimestamp ?st + lockPeriod ?st"
  let ?penalty = "if ?early then (amount ?st * SLASHING_PENALTY) div 100 else 0"
  let ?w = "if ?early then amount ?st - ?penalty else amount ?st"
  let ?s1 = "s\<lparr>userStakes := (userStakes s)(sender := (userStakes s sender)(stakeId :=
                 ?st\<lparr>active := False\<rparr>)),
              userStakeCount := (userStakeCount s)(sender := userStakeCount s sender - 1)\<rparr>"
  from w have act: "active ?st"
    by (auto simp: withdrawStake_def Let_def split: if_splits)
  with inv have k: "stakeId \<le> stakeCounter s"
    by (auto simp: rs_inv_def not_less[symmetric])
  from w obtain s2 s3 where
    u: "updateStakedReputation sender ?s1 = Inr s2" and
    t: "safeTransfer sender ?w s2 = Inr s3" and
    p: "s' = (if ?penalty > 0
              then s3\<lparr>rewardPool := (rewardPool s3)\<lparr>totalRewards :=
                        totalRewards (rewardPool s3) + ?penalty\<rparr>\<rparr>
              else s3)"
    by (auto simp: withdrawStake_def Let_def split: if_splits sum.splits)
  from updateStakedReputation_frame[OF u] have s2: "s2 = ?s1\<lparr>reputationProfiles := reputationProfiles s2\<rparr>"
    by simp
  from safeTransfer_Inr[OF t] have s3: "s3 = s2\<lparr>tokenHeld := tokenHeld s2 - ?w,
            tokenBalance := (tokenBalance s2)(sender := tokenBalance s2 sender + ?w)\<rparr>"
    by simp
  have f2: "userStakes s2 = userStakes ?s1" "tokenBalance s2 = tokenBalance s"
    "rewardPool s2 = rewardPool s" "stakeCounter s2 = stakeCounter s"
    "pendingRewards s2 = pendingRewards s"
    by (subst s2, simp)+
  have f': "userStakes s' = userStakes s2" "stakeCounter s' = stakeCounter s2"
    "pendingRewards s' = pendingRewards s2"
    "tokenBalance s' = (tokenBalance s2)(sender := tokenBalance s2 sender + ?w)"
    "totalRewards (rewardPool s') = totalRewards (rewardPool s2) + ?penalty"
    unfolding p by (subst s3, simp)+
  have stakes: "userStakes s' = (userStakes s)(sender := (userStakes s sender)(stakeId :=
                 ?st\<lparr>active := False\<rparr>))"
    by (simp add: f' f2)
  have cnt: "stakeCounter s' = stakeCounter s" by (simp add: f' f2)
  from totalActiveStakes_upd[OF cnt stakes k] act
  have tas: "totalActiveStakes s' + amount ?st = totalActiveStakes s"
    by (simp add: activeAmount_def)
  have tt: "tokenTotal s' = tokenTotal s + ?w"
    unfolding tokenTotal_def f'(4) f2(2) by (rule sum_upd_add)
  have le: "amount ?st * SLASHING_PENALTY div 100 \<le> amount ?st"
    by (simp add: SLASHING_PENALTY_def)
  have "?w + ?penalty = amount ?st" using le by simp
  with tas tt have "stakingTotal s' = stakingTotal s"
    unfolding stakingTotal_def f'(5) f2(3) by linarith
  moreover have "rs_inv s'"
    using inv by (auto simp: rs_inv_def stakes cnt f' f2)
  ultimately show ?thesis by simp
qed

lemma slashUser_conserves:
  assumes w: "slashUser sender user stakeId s = Inr s'" and inv: "rs_inv s"
  shows "stakingTotal s' = stakingTotal s \<and> rs_inv s'"
proof -
  let ?st = "userStakes s user stakeId"
  let ?slash = "(amount ?st * SLASHING_PENALTY) div 100"
  let ?s1 = "s\<lparr>userStakes := (userStakes s)(user := (userStakes s user)(stakeId :=
                       ?st\<lparr>amount := amount ?st - ?slash\<rparr>)),
                   reputationProfiles := (reputationProfiles s)(user :=
                       (reputationProfiles s user)\<lparr>slashingCount :=
                          slashingCount (reputationProfiles s user) + 1\<rparr>)\<rparr>"
  from w have act: "active ?st"
    by (auto simp: slashUser_def Let_def split: if_splits)
  with inv have k: "stakeId \<le> stakeCounter s"
    by (auto simp: rs_inv_def not_less[symmetric])
  from w obtain s2 where
    u: "updateStakedReputation user ?s1 = Inr s2" and
    p: "s' = s2\<lparr>rewardPool := (rewardPool s2)\<lparr>totalRewards :=
                    totalRewards (rewardPool s2) + ?slash\<rparr>\<rparr>"
    by (auto simp: slashUser_def Let_def split: if_splits sum.splits)
  from updateStakedReputation_frame[OF u] have s2: "s2 = ?s1\<lparr>reputationProfiles := reputationProfiles s2\<rparr>"
    by simp
  have f2: "userStakes s2 = userStakes ?s1" "tokenBalance s2 = tokenBalance s"
    "rewardPool s2 = rewardPool s" "stakeCounter s2 = stakeCounter s"
    "pendingRewards s2 = pendingRewards s"
    by (subst s2, simp)+
  have stakes: "userStakes s' = (userStakes s)(user := (userStakes s user)(stakeId :=
                       ?st\<lparr>amount := amount ?st - ?slash\<rparr>))"
    by (simp add: p f2)
  have cnt: "stakeCounter s' = stakeCounter s" by (simp add: p f2)
  have le: "?slash \<le> amount ?st"
    by (simp add: SLASHING_PENALTY_def)
  from totalActiveStakes_upd[OF cnt stakes k] act
  have tas: "totalActiveStakes s' + amount ?st = totalActiveStakes s + (amount ?st - ?slash)"
    by (simp add: activeAmount_def)
  have tt: "tokenTotal s' = tokenTotal s"
    by (simp add: tokenTotal_def p f2)
  have tr: "totalRewards (rewardPool s') = totalRewards (rewardPool s) + ?slash"
    by (simp add: p f2)
  from tas tt le have "stakingTotal s' = stakingTotal s"
    unfolding stakingTotal_def tr by linarith
  moreover have "rs_inv s'"
    using inv by (auto simp: rs_inv_def stakes cnt p f2)
  ultimately show ?thesis by simp
qed

lemma depositStake_conserves:
  assumes w: "depositStake sender now amt period sType s = Inr s'" and inv: "rs_inv s"
  shows "stakingTotal s' = stakingTotal s \<and> rs_inv s'"
proof -
  let ?n = "stakeCounter s"
  let ?new = "\<lparr>amount = amt, stakeTimestamp = now, lockPeriod = period,
                stakeType = sType, active = True,
                reputationMultiplier = stakeTypeMultipliers s sType\<rparr>"
  let ?s2 = "s\<lparr>tokenAllowance :=
                 (if tokenAllowance s sender = UINT256_LIMIT - 1 then tokenAllowance s
                  else (tokenAllowance s)(sender := tokenAllowance s sender - amt)),
               tokenBalance := (tokenBalance s)(sender := tokenBalance s sender - amt),
               tokenHeld := tokenHeld s + amt,
               stakeCounter := Suc ?n,
               userStakes := (userStakes s)(sender := (userStakes s sender)(Suc ?n := ?new)),
               userStakeCount := (userStakeCount s)(sender := userStakeCount s sender + 1)\<rparr>"
  from w have le: "amt \<le> tokenBalance s sender"
    and u: "updateStakedReputation sender ?s2 = Inr s'"
    by (auto simp: depositStake_def safeTransferFrom_def Let_def split: if_splits sum.splits)
  note ut = updateStakedReputation_totals[OF u]
  from inv have fresh: "\<forall>u. \<not> active (userStakes s u (Suc ?n))"
    by (simp add: rs_inv_def)
  have tas: "totalActiveStakes ?s2 = totalActiveStakes s + amt"
    using totalActiveStakes_new[of ?s2 s sender ?new] fresh by (simp add: activeAmount_def)
  have tt: "tokenTotal ?s2 + amt = tokenTotal s"
    using sum_upd_sub[of amt "tokenBalance s" sender] le by (simp add: tokenTotal_def)
  have "stakingTotal ?s2 = stakingTotal s"
    using tas tt by (simp add: stakingTotal_def)
  moreover have "rs_inv ?s2"
    using inv by (auto simp: rs_inv_def)
  ultimately show ?thesis using ut by simp
qed

lemma updateReputation_frame:
  assumes "updateReputation sender now user change isCorrectVote s = Inr s'"
  shows "s' = s\<lparr>reputationProfiles := reputationProfiles s'\<rparr>"
proof -
  define p1 where "p1 = (if baseReputation (reputationProfiles s user) = 0
                        then (reputationProfiles s user)\<lparr>baseReputation := 10, tier := Bronze,
                                lastUpdate := now\<rparr>
                        else reputationProfiles s user)"
  define p2 where "p2 =
                   (if change > 0
                    then (if isCorrectVote
                          then (p1\<lparr>baseReputation := baseReputation p1 + nat change\<rparr>)
                                 \<lparr>correctVotes :=
                                    correctVotes (p1\<lparr>baseReputation := baseReputation p1 + nat change\<rparr>) + 1\<rparr>
                          else p1\<lparr>baseReputation := baseReputation p1 + nat change\<rparr>)
                    else (if \<not> isCorrectVote
                          then (if baseReputation p1 \<ge> nat (- change)
                                then p1\<lparr>baseReputation := baseReputation p1 - nat (- change)\<rparr>
                                else p1\<lparr>baseReputation := 0\<rparr>)
                                 \<lparr>falseReports :=
                                    falseReports (if baseReputation p1 \<ge> nat (- change)
                                      then p1\<lparr>baseReputation := baseReputation p1 - nat (- change)\<rparr>
                                      else p1\<lparr>baseReputation := 0\<rparr>) + 1\<rparr>
                          else (if baseReputation p1 \<ge> nat (- change)
                                then p1\<lparr>baseReputation := baseReputation p1 - nat (- change)\<rparr>
                                else p1\<lparr>baseReputation := 0\<rparr>)))"
  have shape: "updateReputation sender now user change isCorrectVote s =
     (if \<not> sender = rs_owner s then Inl (Revert ''Unauthorized caller'')
      else if change > 0 \<and> \<not> baseReputation p1 + nat change < UINT256_LIMIT then Inl Panic
      else if \<not> change > 0 \<and> change = INT256_MIN then Inl Panic
      else case updateStakedReputation user
                  (s\<lparr>reputationProfiles := (reputationProfiles s)(user := p2)\<rparr>) of
             Inl e \<Rightarrow> Inl e
           | Inr s2 \<Rightarrow>
               Inr (s2\<lparr>reputationProfiles := (reputationProfiles s2)(user :=
                      (reputationProfiles s2 user)\<lparr>tier :=
                         calculateTier s2 (totalReputation (reputationProfiles s2 user))\<rparr>)\<rparr>))"
    by (simp only: updateReputation_def Let_def p1_def p2_def)
  from assms obtain s2 where
    u: "updateStakedReputation user (s\<lparr>reputationProfiles := (reputationProfiles s)(user := p2)\<rparr>)
          = Inr s2" and
    s': "s' = s2\<lparr>reputationProfiles := (reputationProfiles s2)(user :=
                      (reputationProfiles s2 user)\<lparr>tier :=
                         calculateTier s2 (totalReputation (reputationProfiles s2 user))\<rparr>)\<rparr>"
    unfolding shape by (auto split: if_splits sum.splits)
  from updateStakedReputation_frame[OF u]
  have "s2 = s\<lparr>reputationProfiles := reputationProfiles s2\<rparr>" by simp
  then show ?thesis
    by (subst s') (metis (no_types) reputationSystem.update_convs(2) reputationSystem.select_convs(2)
        reputationSystem.surjective s')
qed

lemma updateReputation_conserves:
  assumes "updateReputation sender now user change isCorrectVote s = Inr s'"
  shows "stakingTotal s' = stakingTotal s \<and> rs_inv s' = rs_inv s"
proof -
  note e = updateReputation_frame[OF assms]
  have "userStakes s' = userStakes s" "stakeCounter s' = stakeCounter s"
    "tokenBalance s' = tokenBalance s" "rewardPool s' = rewardPool s"
    "pendingRewards s' = pendingRewards s"
    by (subst e, simp)+
  then show ?thesis
    using stakingTotal_cong[of s' s] rs_inv_cong[of s' s] by simp
qed

lemma rs_exec_conserves:
  assumes "rs_exec c s = Inr s'" and "rs_inv s"
  shows "stakingTotal s' = stakingTotal s \<and> rs_inv s'"
proof (cases c)
  case (DepositStake a n amt p t)
  with assms show ?thesis by (simp add: depositStake_conserves)
next
  case (WithdrawStake a n i)
  with assms show ?thesis by (simp add: withdrawStake_conserves)
next
  case (UpdateReputation a n u ch b)
  with assms show ?thesis using updateReputation_conserves[of a n u ch b s s'] by simp
next
  case (SlashUser a u i)
  with assms show ?thesis by (simp add: slashUser_conserves)
next
  case (DistributeRewards a n)
  with assms show ?thesis
    by (auto simp: distributeRewards_def Let_def rs_inv_def stakingTotal_def tokenTotal_def
          totalActiveStakes_def stakedBy_def split: if_splits)
next
  case (ClaimRewards a n)
  with assms show ?thesis
    by (auto simp: claimRewards_def rs_inv_def Let_def split: if_splits)
next
  case (SetPaused a b)
  with assms show ?thesis
    by (auto simp: setPaused_def rs_inv_def stakingTotal_def tokenTotal_def
          totalActiveStakes_def stakedBy_def split: if_splits)
next
  case (UpdateTierThreshold a t n)
  with assms show ?thesis
    by (auto simp: updateTierThreshold_def rs_inv_def stakingTotal_def tokenTotal_def
          totalActiveStakes_def stakedBy_def split: if_splits)
next
  case (UpdateTierMultiplier a t n)
  with assms show ?thesis
    by (auto simp: updateTierMultiplier_def rs_inv_def stakingTotal_def tokenTotal_def
          totalActiveStakes_def stakedBy_def split: if_splits)
next
  case (UpdateStakeTypeMultiplier a t n)
  with assms show ?thesis
    by (auto simp: updateStakeTypeMultiplier_def rs_inv_def stakingTotal_def tokenTotal_def
          totalActiveStakes_def stakedBy_def split: if_splits)
qed

lemma rs_run_conserves:
  "rs_run cs s = Inr s' \<Longrightarrow> rs_inv s \<Longrightarrow> stakingTotal s' = stakingTotal s \<and> rs_inv s'"
proof (induction cs arbitrary: s)
  case Nil
  then show ?case by simp
next
  case (Cons c cs)
  from Cons.prems(1) obtain s1 where 1: "rs_exec c s = Inr s1" and 2: "rs_run cs s1 = Inr s'"
    by (auto split: sum.splits)
  from rs_exec_conserves[OF 1 Cons.prems(2)] Cons.IH[OF 2] show ?case by simp
qed

lemma rs_deploy_total:
  "rs_inv (rs_deploy d bal held allow)"
  "stakingTotal (rs_deploy d bal held allow) = sum bal UNIV"
  by (simp_all add: rs_inv_def stakingTotal_def tokenTotal_def totalActiveStakes_def
        stakedBy_def activeAmount_def rs_deploy_def emptyStake_def)

subsection \<open>C1: what is conserved, and what is not\<close>

text \<open>
  Claim C1 fails on the code: in \<open>stateC\<close> the registry holds two pending reports and two
  votes, and nothing else. The third valid vote on report 1 finalizes it and pays the
  reporter's and the validators' rewards out of the stake of report 2: the sum of the
  accounts' balances, the locked stakes and what the contract holds beyond them grows by
  \<open>REPORTER_REWARD + 3 * VALIDATOR_REWARD\<close> with no deposit, and the contract is left
  holding less than the stakes that are still locked.
\<close>

theorem conservation_counterexample:
  "voteOnReport 23 VOTING_STAKE 2000 1 True stateC = Inr stateC' \<and>
   engineTotal stateC' = engineTotal stateC + (REPORTER_REWARD + 3 * VALIDATOR_REWARD) \<and>
   balance stateC' < lockedStakes stateC'"
proof -
  from voteOnReport_conserves[OF stateC'_vote]
  have "totalAccounts stateC' + 2 * 10 ^ 15 = totalAccounts stateC + 3 * 10 ^ 16"
    by (simp add: stateC_ledger)
  then have "totalAccounts stateC' = totalAccounts stateC + 28 * 10 ^ 15"
    by simp
  then show ?thesis
    using stateC'_vote
    by (simp add: engineTotal_def rewardPoolBalance_def stateC_ledger
          REPORTER_REWARD_def VALIDATOR_REWARD_def)
qed

text \<open>
  Claim C1, amended. Every sequence of calls of the report registry that succeeds leaves the
  sum of all accounts' ether and the ether the contract holds unchanged: a call only moves
  ether between the two, and a call that would pay out more than the contract holds reverts
  as a whole. The registry keeps no reward pool, so nothing ties what it holds to the
  stakes still locked. In the reputation system, every sequence of calls that succeeds from
  a state without active stakes beyond the stake counter and without pending rewards, such
  as the state after deployment, leaves the sum of all accounts' tokens, the amounts of the
  active stakes and the reward pool unchanged: withdrawal and slashing move a stake's
  amount to its owner and to the reward pool.
\<close>

theorem value_conservation:
  "(run cs s = Inr s' \<longrightarrow> totalAccounts s' + balance s' = totalAccounts s + balance s) \<and>
   rs_inv (rs_deploy d bal held allow) \<and>
   (rs_inv rs \<and> rs_run rcs rs = Inr rs' \<longrightarrow> stakingTotal rs' = stakingTotal rs \<and> rs_inv rs')"
proof -
  have "totalAccounts s' + balance s' = totalAccounts s + balance s" if "run cs s = Inr s'"
    using that
  proof (induction cs arbitrary: s)
    case Nil
    then show ?case by simp
  next
    case (Cons c cs)
    from Cons.prems obtain s1 where 1: "exec c s = Inr s1" and 2: "run cs s1 = Inr s'"
      by (auto split: sum.splits)
    from exec_conserves[OF 1] Cons.IH[OF 2] show ?case by simp
  qed
  then show ?thesis
    using rs_run_conserves[of rcs rs rs'] rs_deploy_total(1)[of d bal held allow] by blast
qed

lemma rsEarly_run:
  "rs_run [UpdateReputation 1 900 7 50 True,
           DepositStake 7 1000 (1000 * 10 ^ 18) (30 * 86400) ReportStake,
           WithdrawStake 7 (1000 + 30 * 86400 - 1) 1] rsFresh = Inr rsEarly"
  unfolding rsEarly_def rsStaked_def by (simp add: rs_scenario_defs)

theorem value_conservation_witness:
  "run scenarioC (deploy 1 0 scenarioAccounts) = Inr stateC \<and>
   totalAccounts stateC + balance stateC = totalAccounts (deploy 1 0 scenarioAccounts) + 0 \<and>
   rs_inv rsFresh \<and>
   rs_run [UpdateReputation 1 900 7 50 True,
           DepositStake 7 1000 (1000 * 10 ^ 18) (30 * 86400) ReportStake,
           WithdrawStake 7 (1000 + 30 * 86400 - 1) 1] rsFresh = Inr rsEarly \<and>
   stakingTotal rsEarly = stakingTotal rsFresh"
  using value_conservation[where cs = scenarioC and s = "deploy 1 0 scenarioAccounts"
      and s' = stateC and d = 1 and bal = "\<lambda>a. if a = 7 then 1000 * 10 ^ 18 else 0"
      and held = 0 and allow = "\<lambda>a. if a = 7 then 1000 * 10 ^ 18 else 0"
      and rs = rsFresh and rs' = rsEarly
      and rcs = "[UpdateReputation 1 900 7 50 True,
           DepositStake 7 1000 (1000 * 10 ^ 18) (30 * 86400) ReportStake,
           WithdrawStake 7 (1000 + 30 * 86400 - 1) 1]"]
    stateC_run rsEarly_run
  by (simp add: rsFresh_def deploy_def)

end
